theory Spec2Isabelle
  imports Main "HOL-Library.AList"
begin

section \<open>The syntax tree handed over by the Fluent parser\<close>

text \<open>
  The analyzer consumes the syntax tree of \<^verbatim>\<open>@fluent/syntax\<close>.  One datatype holds every
  node the analyzer can meet below a pattern, as the union type \<^verbatim>\<open>ASTNode\<close> of
  \<^verbatim>\<open>types.ts\<close> does; the constructor is the node's \<^verbatim>\<open>type\<close> tag.  Spans are left
  out of the pattern tree: the analyzer reads spans of identifiers and junk annotations only,
  and the library's \<^verbatim>\<open>equals\<close> ignores them.

    \<^item> \<open>TermReference id attribute arguments\<close>: \<open>arguments\<close> is \<open>None\<close> for \<^verbatim>\<open>null\<close>,
      else the positional and the named arguments;
    \<^item> \<open>FunctionReference id positional named\<close>;
    \<^item> \<open>SelectExpression selector variants\<close>;
    \<^item> \<open>Variant key elements default\<close>: \<open>elements\<close> are the elements of the variant's
      value pattern.
\<close>

datatype VariantKey = KeyIdentifier string | KeyNumberLiteral string

datatype ASTNode =
    TextElement string
  | Placeable ASTNode
  | StringLiteral string
  | NumberLiteral string
  | MessageReference string "string option"
  | TermReference string "string option" "(ASTNode list \<times> ASTNode list) option"
  | VariableReference string
  | FunctionReference string "ASTNode list" "ASTNode list"
  | SelectExpression ASTNode "ASTNode list"
  | Variant VariantKey "ASTNode list" bool
  | NamedArgument string ASTNode

datatype Pattern = Pattern (elements: "ASTNode list")

text \<open>
  A JavaScript value of type \<^verbatim>\<open>T | null | undefined\<close>, the parameter type of
  \<^verbatim>\<open>patternsEqual\<close> and \<^verbatim>\<open>collectVariables\<close>.
\<close>

datatype 'a nullable = Undefined | Null | Present 'a

fun of_option :: "'a option \<Rightarrow> 'a nullable" where
  "of_option None = Undefined"
| "of_option (Some x) = Present x"

section \<open>helpers.ts\<close>

text \<open>
  Modelled from the spec: the method \<^verbatim>\<open>equals\<close> of the parser library's pattern nodes, which is
  not part of the repository.  The spec (section 6) says that patterns expose a
  structural-equality predicate; on the span-free tree that is equality of the trees.
\<close>

definition equals :: "Pattern \<Rightarrow> Pattern \<Rightarrow> bool" where
  "equals p other = (p = other)"

text \<open>
  \<^verbatim>\<open>patternsEqual\<close>: when either side is falsy (\<^verbatim>\<open>undefined\<close> or \<^verbatim>\<open>null\<close>; a pattern object is
  always truthy) the result is \<^verbatim>\<open>pattern === other\<close>, which holds for two \<^verbatim>\<open>undefined\<close> and for
  two \<^verbatim>\<open>null\<close> and for no other pair with a falsy side.
\<close>

fun patternsEqual :: "Pattern nullable \<Rightarrow> Pattern nullable \<Rightarrow> bool" where
  "patternsEqual (Present p) (Present other) = equals p other"
| "patternsEqual Undefined other = (other = Undefined)"
| "patternsEqual Null other = (other = Null)"
| "patternsEqual (Present p) other = False"

section \<open>Sets of strings in insertion order\<close>

text \<open>
  A JavaScript \<^verbatim>\<open>Set<string>\<close> iterates in insertion order, and the order in which
  \<^verbatim>\<open>checkParams\<close> walks \<^verbatim>\<open>entry.variables\<close> is the order of its diagnostics.  A set is therefore
  a duplicate-free list: \<open>set_add\<close> is \<^verbatim>\<open>Set.prototype.add\<close>, \<open>set_delete\<close> is
  \<^verbatim>\<open>Set.prototype.delete\<close>, \<open>set_has\<close> is \<^verbatim>\<open>Set.prototype.has\<close>.
\<close>

definition set_has :: "string list \<Rightarrow> string \<Rightarrow> bool" where
  "set_has s x = (x \<in> set s)"

definition set_add :: "string \<Rightarrow> string list \<Rightarrow> string list" where
  "set_add x s = (if x \<in> set s then s else s @ [x])"

definition set_delete :: "string \<Rightarrow> string list \<Rightarrow> string list" where
  "set_delete x s = filter (\<lambda>y. y \<noteq> x) s"

section \<open>FtlAnalyzer.collectVariables\<close>

text \<open>
  The work-stack loop of \<^verbatim>\<open>collectVariables\<close>.  The head of the list is the top of the stack:
  \<^verbatim>\<open>stack.pop()\<close> takes the head, \<^verbatim>\<open>stack.push(x)\<close> conses, and \<^verbatim>\<open>stack.push(...xs)\<close> pushes the
  elements of \<open>xs\<close> from left to right, so that the last of them ends on top.  The \<^verbatim>\<open>switch\<close>
  has four cases; every other node type, \<^verbatim>\<open>Variant\<close> among them, is popped and dropped.
\<close>

function collectLoop :: "ASTNode list \<Rightarrow> string list \<Rightarrow> string list" where
  "collectLoop [] vars = vars"
| "collectLoop (VariableReference n # stack) vars = collectLoop stack (set_add n vars)"
| "collectLoop (Placeable e # stack) vars = collectLoop (e # stack) vars"
| "collectLoop (FunctionReference f positional named # stack) vars =
     collectLoop (rev positional @ stack) vars"
| "collectLoop (SelectExpression selector variants # stack) vars =
     collectLoop (rev variants @ selector # stack) vars"
| "collectLoop (TextElement t # stack) vars = collectLoop stack vars"
| "collectLoop (StringLiteral t # stack) vars = collectLoop stack vars"
| "collectLoop (NumberLiteral t # stack) vars = collectLoop stack vars"
| "collectLoop (MessageReference m a # stack) vars = collectLoop stack vars"
| "collectLoop (TermReference m a args # stack) vars = collectLoop stack vars"
| "collectLoop (Variant k els d # stack) vars = collectLoop stack vars"
| "collectLoop (NamedArgument k v # stack) vars = collectLoop stack vars"
  by pat_completeness auto
termination
proof -
  have le: "sum_list (map size xs) + length xs \<le> size_list size xs" for xs :: "ASTNode list"
    by (induction xs) auto
  have rv: "sum_list (map size (rev xs)) = sum_list (map size xs)" for xs :: "ASTNode list"
    by (induction xs) auto
  show ?thesis
    apply (relation "measure (\<lambda>(stack, vars). sum_list (map size stack) + length stack)")
    apply simp_all
    subgoal for positional
      using le [of positional] rv [of positional] by simp
    subgoal for variants
      using le [of variants] rv [of variants] by simp
    done
qed

text \<open>
  \<^verbatim>\<open>collectVariables\<close>: no variables for a missing pattern; else the loop runs on a stack that
  starts as a copy of the pattern's elements (the last element on top).
\<close>

fun collectVariables :: "Pattern nullable \<Rightarrow> string list" where
  "collectVariables (Present p) = collectLoop (rev (elements p)) []"
| "collectVariables other = []"

section \<open>Strings\<close>

text \<open>
  Strings are lists of characters, a character being a code unit below 256.  The string
  methods of the runtime that the analyzer calls are written out for such text: \<open>trim\<close> strips
  the white space among these characters, which are the six ASCII ones and the no-break space,
  and the case mappings change the 26 letters (the analyzer lower-cases the literals \<^verbatim>\<open>Message\<close> and
  \<^verbatim>\<open>Attribute\<close> only, and discovery upper-cases a file name to compare its end with
  \<^verbatim>\<open>.FTL\<close>).  \<open>indexOf\<close> is \<open>- 1\<close> when the character is absent, as in the source;
  \<open>slice s b e\<close> is \<^verbatim>\<open>s.slice(b, e)\<close> for the non-negative bounds the analyzer passes, the end
  \<open>None\<close> standing for \<^verbatim>\<open>undefined\<close>.
\<close>

definition isWhiteSpace :: "char \<Rightarrow> bool" where
  "isWhiteSpace c = (c \<in> set [CHR '' '', CHR 0x09, CHR 0x0A, CHR 0x0B, CHR 0x0C, CHR 0x0D, CHR 0xA0])"

definition trimEnd :: "string \<Rightarrow> string" where
  "trimEnd s = rev (dropWhile isWhiteSpace (rev s))"

definition trim :: "string \<Rightarrow> string" where
  "trim s = trimEnd (dropWhile isWhiteSpace s)"

definition indexOf :: "string \<Rightarrow> char \<Rightarrow> int" where
  "indexOf s c = (if c \<in> set s then int (length (takeWhile (\<lambda>x. x \<noteq> c) s)) else - 1)"

definition slice :: "string \<Rightarrow> nat \<Rightarrow> nat option \<Rightarrow> string" where
  "slice s b e = (case e of None \<Rightarrow> drop b s | Some n \<Rightarrow> take (n - b) (drop b s))"

definition startsWith :: "string \<Rightarrow> string \<Rightarrow> bool" where
  "startsWith s p = (take (length p) s = p)"

definition endsWith :: "string \<Rightarrow> string \<Rightarrow> bool" where
  "endsWith s p = (length p \<le> length s \<and> drop (length s - length p) s = p)"

definition toLowerChar :: "char \<Rightarrow> char" where
  "toLowerChar c =
     (case map_of (zip ''ABCDEFGHIJKLMNOPQRSTUVWXYZ'' ''abcdefghijklmnopqrstuvwxyz'') c of
        Some d \<Rightarrow> d | None \<Rightarrow> c)"

definition toLowerCase :: "string \<Rightarrow> string" where
  "toLowerCase s = map toLowerChar s"

definition toUpperChar :: "char \<Rightarrow> char" where
  "toUpperChar c =
     (case map_of (zip ''abcdefghijklmnopqrstuvwxyz'' ''ABCDEFGHIJKLMNOPQRSTUVWXYZ'') c of
        Some d \<Rightarrow> d | None \<Rightarrow> c)"

definition toUpperCase :: "string \<Rightarrow> string" where
  "toUpperCase s = map toUpperChar s"

text \<open>\<^verbatim>\<open>s.split(c)\<close> for a one-character separator: the pieces between the separators.\<close>

fun splitOn :: "char \<Rightarrow> string \<Rightarrow> string list" where
  "splitOn c [] = [[]]"
| "splitOn c (x # xs) =
     (case splitOn c xs of
        [] \<Rightarrow> [[x]]
      | p # ps \<Rightarrow> if x = c then [] # p # ps else (x # p) # ps)"

text \<open>\<^verbatim>\<open>xs.join(sep)\<close>.\<close>

fun joinWith :: "string \<Rightarrow> string list \<Rightarrow> string" where
  "joinWith sep [] = []"
| "joinWith sep [x] = x"
| "joinWith sep (x # y # ys) = x @ sep @ joinWith sep (y # ys)"

text \<open>
  \<^verbatim>\<open>content.match(REGEXP_LINE) ?? []\<close> with \<^verbatim>\<open>REGEXP_LINE = /[^\n]*\n|[^\n]+/g\<close>: the lines of
  the text, each with its line feed, and a last line without one when the text does not end
  in a line feed.
\<close>

fun matchLines :: "string \<Rightarrow> string \<Rightarrow> string list" where
  "matchLines cur [] = (if cur = [] then [] else [cur])"
| "matchLines cur (c # cs) =
     (if c = CHR 0x0A then (cur @ [c]) # matchLines [] cs else matchLines (cur @ [c]) cs)"

section \<open>Records of plain objects\<close>

text \<open>
  The analyzer keeps its lookup tables in plain objects (\<^verbatim>\<open>{} as Record<string, T>\<close>).  Such a
  table is an association list in insertion order: \<^verbatim>\<open>rec[k] = v\<close> is \<open>AList.update k v\<close> (a key
  that is present keeps its place) and \<^verbatim>\<open>Object.values(rec)\<close> is \<open>map snd\<close>.  The keys the
  analyzer writes are identifiers of the parser and parameter names matched by its regular
  expressions, all of which begin with a letter.

  A read \<^verbatim>\<open>rec[k]\<close> of a key that is not an own property does not stop at the table: a plain
  object inherits the members of \<^verbatim>\<open>Object.prototype\<close>, so the read yields a function (or, for
  \<^verbatim>\<open>__proto__\<close>, the prototype object) when \<open>k\<close> names one of them, and \<^verbatim>\<open>undefined\<close> only
  otherwise.  \<open>Inherited\<close> is that truthy value, which has none of the fields of an entry.
\<close>

datatype 'a property = Missing | Own 'a | Inherited

definition objectPrototypeKeys :: "string list" where
  "objectPrototypeKeys =
     [''constructor'', ''hasOwnProperty'', ''isPrototypeOf'', ''propertyIsEnumerable'',
      ''toLocaleString'', ''toString'', ''valueOf'', ''__defineGetter__'', ''__defineSetter__'',
      ''__lookupGetter__'', ''__lookupSetter__'', ''__proto__'']"

definition rec_get :: "(string \<times> 'a) list \<Rightarrow> string \<Rightarrow> 'a property" where
  "rec_get r k =
     (case map_of r k of
        Some v \<Rightarrow> Own v
      | None \<Rightarrow> if k \<in> set objectPrototypeKeys then Inherited else Missing)"

fun truthy :: "'a property \<Rightarrow> bool" where
  "truthy Missing = False"
| "truthy (Own v) = True"
| "truthy Inherited = True"

text \<open>An optional boolean field (\<^verbatim>\<open>flag?: boolean\<close>) read as a condition.\<close>

fun isTrue :: "bool option \<Rightarrow> bool" where
  "isTrue (Some b) = b"
| "isTrue None = False"

text \<open>
  What a run of the analyzer can end in other than a normal return.  \<open>TypeError\<close> is the
  exception of the runtime for a property read or written on \<^verbatim>\<open>undefined\<close>, \<open>BadArgument\<close> the
  error that \<^verbatim>\<open>handleTargetedAnnotation\<close> throws itself.
\<close>

datatype error = TypeError | BadArgument

fun bindE :: "error + 'a \<Rightarrow> ('a \<Rightarrow> error + 'b) \<Rightarrow> error + 'b" where
  "bindE (Inl e) f = Inl e"
| "bindE (Inr x) f = f x"

text \<open>A \<^verbatim>\<open>for\<close> loop over a list whose body may throw.\<close>

fun foldE :: "('a \<Rightarrow> 's \<Rightarrow> error + 's) \<Rightarrow> 'a list \<Rightarrow> 's \<Rightarrow> error + 's" where
  "foldE f [] s = Inr s"
| "foldE f (x # xs) s = bindE (f x s) (foldE f xs)"

section \<open>types.ts\<close>

datatype TranslateType = Required | Optional | Disallowed

datatype DiagnosticSeverity = Error | Warning

record ISpan =
  span_start :: int
  span_end :: int

record IReportable =
  report_code :: string
  report_message :: string
  report_span :: ISpan

record DiagnosticRangeElement =
  line :: int
  column :: int
  index :: int

record DiagnosticRange =
  range_start :: DiagnosticRangeElement
  range_end :: DiagnosticRangeElement

record DiagnosticInfo =
  severity :: DiagnosticSeverity
  message :: string
  code :: string
  diag_uri :: string
  diag_range :: DiagnosticRange

record PathInfo =
  uri :: string
  absolute :: string
  relative :: string

record ParamInfo =
  param_id :: string
  required :: bool
  param_type :: "string option"
  param_comment :: "string option"

text \<open>
  \<^verbatim>\<open>ElementInfo\<close> is what attributes, messages and terms share; \<^verbatim>\<open>BaseMessageInfo\<close> extends it.
  A message and a term have the same shape and differ in the flag \<open>isTerm\<close>.  The field \<open>ident\<close>
  is the source's \<^verbatim>\<open>id\<close>, \<open>val\<close> its \<^verbatim>\<open>value\<close> (\<open>None\<close> for \<^verbatim>\<open>undefined\<close>, which the type admits
  for messages only).
\<close>

record ElementInfo =
  ident :: string
  name :: string
  val :: "Pattern option"
  idSpan :: ISpan
  translate :: TranslateType
  expectIdentical :: "bool option"
  params :: "(string \<times> ParamInfo) list"
  variables :: "string list"

type_synonym AttributeInfo = ElementInfo

record MessageInfo = ElementInfo +
  isTerm :: bool
  comment :: "string option"
  attributes :: "(string \<times> AttributeInfo) list"
  ignoreAll :: "bool option"
  ignore :: "string list"

type_synonym TermInfo = MessageInfo

text \<open>
  \<^verbatim>\<open>EntryInfo = MessageInfo | TermInfo | AttributeInfo\<close>.  The source tells the two apart by
  \<^verbatim>\<open>'isTerm' in entry\<close>, which holds for messages and terms and for no attribute.
\<close>

datatype EntryInfo = MessageEntry MessageInfo | AttributeEntry AttributeInfo

fun entry_idSpan :: "EntryInfo \<Rightarrow> ISpan" where
  "entry_idSpan (MessageEntry m) = idSpan m"
| "entry_idSpan (AttributeEntry a) = idSpan a"

fun entry_ident :: "EntryInfo \<Rightarrow> string" where
  "entry_ident (MessageEntry m) = ident m"
| "entry_ident (AttributeEntry a) = ident a"

fun entry_name :: "EntryInfo \<Rightarrow> string" where
  "entry_name (MessageEntry m) = name m"
| "entry_name (AttributeEntry a) = name a"

fun entry_params :: "EntryInfo \<Rightarrow> (string \<times> ParamInfo) list" where
  "entry_params (MessageEntry m) = params m"
| "entry_params (AttributeEntry a) = params a"

fun entry_variables :: "EntryInfo \<Rightarrow> string list" where
  "entry_variables (MessageEntry m) = variables m"
| "entry_variables (AttributeEntry a) = variables a"

text \<open>
  \<open>file_name\<close>, \<open>file_bundle\<close> and \<open>file_ignore\<close> are the fields \<^verbatim>\<open>name\<close>, \<^verbatim>\<open>bundle\<close> and
  \<^verbatim>\<open>ignore\<close> of \<^verbatim>\<open>FileInfo\<close>, and \<open>group_locale\<close> is the \<^verbatim>\<open>locale\<close> of a \<^verbatim>\<open>FileGroup\<close>; an
  optional field that is unset is \<open>None\<close>.
\<close>

record FileInfo =
  file_name :: string
  path :: PathInfo
  content :: string
  terms :: "TermInfo list"
  messages :: "MessageInfo list"
  file_bundle :: "string option"
  file_ignore :: "string list option"
  hash :: "nat option"

text \<open>A \<^verbatim>\<open>Map\<close> is an association list in insertion order.\<close>

record FileGroup =
  group_locale :: string
  files :: "(string \<times> FileInfo) list"

record FileCollection =
  collection_path :: PathInfo
  groups :: "(string \<times> FileGroup) list"

record DiscoveryResult =
  collections :: "FileCollection list"
  ungrouped :: FileGroup
  uris :: "string list"

record AnnotationItem =
  annot_name :: string
  annot_value :: string

record ExtractedComment =
  extracted_comment :: string
  annotations :: "AnnotationItem list"

record AnnotationState =
  state_translate :: TranslateType
  state_file :: FileInfo
  state_bundle :: "string option"
  state_global :: "bool option"
  state_ignore :: "string list"
  state_ignoreAll :: "bool option"

section \<open>helpers.ts, continued\<close>

text \<open>
  The keys of \<^verbatim>\<open>WARN_STRINGS\<close> are the type \<^verbatim>\<open>WarnCode\<close>; \<open>codeName\<close> is the key as the string
  that ends up in a diagnostic and is looked up in the ignore sets.
\<close>

datatype WarnCode =
    DoNotTranslate | Identical | Duplicate | MismatchIdentical | MismatchFileBundle
  | UnknownFile | UnknownMessage | UnknownAttribute | UnknownVariable
  | MissingFile | MissingMessage | MissingAttribute | MissingRequiredVariable
  | AnnotationMissing | AnnotationTypeMismatch

fun codeName :: "WarnCode \<Rightarrow> string" where
  "codeName DoNotTranslate = ''do-not-translate''"
| "codeName Identical = ''identical''"
| "codeName Duplicate = ''duplicate''"
| "codeName MismatchIdentical = ''mismatch-identical''"
| "codeName MismatchFileBundle = ''mismatch-file-bundle''"
| "codeName UnknownFile = ''unknown-file''"
| "codeName UnknownMessage = ''unknown-message''"
| "codeName UnknownAttribute = ''unknown-attribute''"
| "codeName UnknownVariable = ''unknown-variable''"
| "codeName MissingFile = ''missing-file''"
| "codeName MissingMessage = ''missing-message''"
| "codeName MissingAttribute = ''missing-attribute''"
| "codeName MissingRequiredVariable = ''missing-required-variable''"
| "codeName AnnotationMissing = ''annotation-missing''"
| "codeName AnnotationTypeMismatch = ''annotation-type-mismatch''"

fun WARN_STRINGS :: "WarnCode \<Rightarrow> string" where
  "WARN_STRINGS DoNotTranslate = ''{0} \"{1}\" should not be translated''"
| "WARN_STRINGS Identical = ''{0} \"{1}\" is identical to the source locale {2}''"
| "WARN_STRINGS Duplicate = ''Duplicate {0} \"{1}\"''"
| "WARN_STRINGS MismatchIdentical = ''{0} \"{1}\" should be identical to the source locale {2}''"
| "WARN_STRINGS MismatchFileBundle =
     ''File {0} is assigned to the {1} bundle, but to the {2} bundle in the source locale''"
| "WARN_STRINGS UnknownFile = ''File {0} does not have a corresponding file in the source locale''"
| "WARN_STRINGS UnknownMessage =
     ''Message \"{0}\" is defined here, but is not defined in the source locale''"
| "WARN_STRINGS UnknownAttribute =
     ''Attribute \"{0}\" is defined here, but is not defined in the source locale''"
| "WARN_STRINGS UnknownVariable =
     ''Variable \"{0}\" is used here, but is not used or declared in the source locale {1}''"
| "WARN_STRINGS MissingFile = ''File {0} is missing''"
| "WARN_STRINGS MissingMessage = ''Message \"{0}\" is missing''"
| "WARN_STRINGS MissingAttribute = ''Attribute \"{0}\" is missing''"
| "WARN_STRINGS MissingRequiredVariable = ''Variable {0} is required, but missing in {1} \"{2}\"''"
| "WARN_STRINGS AnnotationMissing = ''Annotation \"{0}\" is missing for {1} \"{2}\"''"
| "WARN_STRINGS AnnotationTypeMismatch =
     ''Annotation \"{0}\" type does not match the source locale for {1} \"{2}\"''"

definition WARN_ADD_LOWER :: "WarnCode list" where
  "WARN_ADD_LOWER = [Identical, MismatchIdentical]"

text \<open>
  \<^verbatim>\<open>getLineAndCol\<close>: the loop runs over the indices below \<open>idx\<close>; an index beyond the text reads
  \<^verbatim>\<open>undefined\<close>, which is no line feed.
\<close>

definition getLineAndCol :: "string \<Rightarrow> int \<Rightarrow> int \<times> int" where
  "getLineAndCol text idx =
     fold (\<lambda>i (ln, col). if i < length text \<and> text ! i = CHR 0x0A then (ln + 1, 1) else (ln, col + 1))
       [0 ..< nat idx] (1, 1)"

definition spanToRange :: "ISpan \<Rightarrow> string \<Rightarrow> DiagnosticRange" where
  "spanToRange span text =
     (let start = (if span_start span < 0 then int (length text) + span_start span
                   else span_start span);
          stop = (if span_end span < 0 then int (length text) + span_end span else span_end span);
          sp = getLineAndCol text start;
          ep = getLineAndCol text stop
      in \<lparr>range_start = \<lparr>line = fst sp, column = snd sp, index = start\<rparr>,
          range_end = \<lparr>line = fst ep, column = snd ep, index = stop\<rparr>\<rparr>)"

text \<open>
  The replacement of \<^verbatim>\<open>createWarning\<close>: every \<^verbatim>\<open>{digits}\<close> of the template becomes the
  argument of that index, or stays as it is when that argument is missing or empty
  (\<^verbatim>\<open>args[parseInt(index)] || match\<close>).
\<close>

definition isDigit :: "char \<Rightarrow> bool" where
  "isDigit c = (c \<in> set ''0123456789'')"

definition digitValue :: "char \<Rightarrow> nat" where
  "digitValue c = length (takeWhile (\<lambda>d. d \<noteq> c) ''0123456789'')"

definition parseInt :: "string \<Rightarrow> nat" where
  "parseInt ds = foldl (\<lambda>n d. 10 * n + digitValue d) 0 ds"

function replacePlaceholders :: "string \<Rightarrow> string list \<Rightarrow> string" where
  "replacePlaceholders [] args = []"
| "replacePlaceholders (c # cs) args =
     (let ds = takeWhile isDigit cs; rest = dropWhile isDigit cs in
      if c = CHR ''{'' \<and> ds \<noteq> [] \<and> rest \<noteq> [] \<and> hd rest = CHR ''}''
      then (let i = parseInt ds; m = c # ds @ ''}'' in
            (if i < length args \<and> args ! i \<noteq> [] then args ! i else m)
              @ replacePlaceholders (tl rest) args)
      else c # replacePlaceholders cs args)"
  by pat_completeness auto
termination
  apply (relation "measure (\<lambda>(s, args). length s)")
  apply (auto simp: less_Suc_eq_le)
  subgoal for cs
    using length_dropWhile_le [of isDigit cs] by (cases "dropWhile isDigit cs") auto
  done

text \<open>
  \<^verbatim>\<open>createWarning\<close>.  For the two codes of \<^verbatim>\<open>WARN_ADD_LOWER\<close> the lower-cased first argument
  is pushed onto the arguments; every call with one of these codes passes arguments.
\<close>

definition createWarning :: "WarnCode \<Rightarrow> ISpan \<Rightarrow> string list \<Rightarrow> IReportable" where
  "createWarning c span args =
     (let args' = (if c \<in> set WARN_ADD_LOWER then args @ [toLowerCase (hd args)] else args)
      in \<lparr>report_code = codeName c,
          report_message = replacePlaceholders (WARN_STRINGS c) args',
          report_span = span\<rparr>)"

fun getBundleDisplay :: "string option \<Rightarrow> string" where
  "getBundleDisplay None = ''default''"
| "getBundleDisplay (Some b) = (if b = [] then ''global'' else ''\"'' @ b @ ''\"'')"

definition getWarningCategory :: "string \<Rightarrow> string" where
  "getWarningCategory c =
     (if c = ''do-not-translate'' then c
      else (let dash = indexOf c CHR ''-'' in
            if dash = - 1 then c else slice c 0 (Some (nat dash))))"

text \<open>\<^verbatim>\<open>readAnnots\<close>.\<close>

definition readAnnot :: "string \<Rightarrow> AnnotationItem" where
  "readAnnot m =
     (let space = indexOf m CHR '' '' in
      \<lparr>annot_name = (if space \<noteq> - 1 then slice m 0 (Some (nat space)) else trimEnd m),
       annot_value = (if space \<noteq> - 1 then trim (slice m (nat (space + 1)) None) else [])\<rparr>)"

definition readAnnots :: "string \<Rightarrow> ExtractedComment" where
  "readAnnots text =
     (let matches = matchLines [] text;
          lines = filter (\<lambda>m. \<not> startsWith m ''@'') matches
      in \<lparr>extracted_comment = (if length lines > 0 then trim (joinWith [CHR 0x0A] lines) else []),
          annotations = map readAnnot (filter (\<lambda>m. startsWith m ''@'') matches)\<rparr>)"

section \<open>What the analyzer takes from its runtime\<close>

text \<open>
  The top-level items of a parsed resource, as far as the analyzer reads them.  An attribute
  has the name and span of its identifier and its pattern; a message or term has the name and
  span of its identifier, its pattern (\<open>None\<close> for \<^verbatim>\<open>null\<close>), its attributes and the content of
  its comment (\<open>None\<close> for no comment); a junk item has its annotations, each with a code, a
  message and a span.  \<open>OtherEntry\<close> is any item of another type (a plain or group comment),
  which \<^verbatim>\<open>read\<close> skips.
\<close>

record Attribute =
  attr_id_name :: string
  attr_id_span :: ISpan
  attr_value :: Pattern

record ParsedEntry =
  entry_id_name :: string
  entry_id_span :: ISpan
  entry_value :: "Pattern option"
  entry_attributes :: "Attribute list"
  entry_comment :: "string option"

datatype Entry =
    Message ParsedEntry
  | Term ParsedEntry
  | ResourceComment string
  | Junk "IReportable list"
  | OtherEntry

text \<open>
  The functions of the runtime and of the libraries that the analyzer calls and the repository
  does not define are parameters of the embedding:

    \<^item> \<open>readFile u\<close>: the text of the file with URI \<open>u\<close> (\<^verbatim>\<open>fs.readFile\<close> of \<^verbatim>\<open>fileURLToPath\<close>),
      \<open>None\<close> when reading throws;
    \<^item> \<open>parse\<close>: the body of \<^verbatim>\<open>ast.parse(content, { withSpans: true })\<close>;
    \<^item> \<open>murmurhash_v3\<close>: the hash of a text;
    \<^item> \<open>matchParam\<close> and \<open>matchParamAttr\<close>: \<^verbatim>\<open>value.match(REGEXP_PARAM)\<close> and
      \<^verbatim>\<open>value.match(REGEXP_PARAM_ATTR)\<close>, \<open>None\<close> for no match, else the capture groups in order
      (for the second expression the attribute name comes first); the group of the type is
      inside an optional group and is \<open>None\<close> (\<^verbatim>\<open>undefined\<close>) when that took no part in the match;
    \<^item> \<open>path_dirname\<close> and \<open>path_join\<close>: \<^verbatim>\<open>path.dirname\<close> and \<^verbatim>\<open>path.join\<close>.
\<close>

record Runtime =
  readFile :: "string \<Rightarrow> string option"
  parse :: "string \<Rightarrow> Entry list"
  murmurhash_v3 :: "string \<Rightarrow> nat"
  matchParam :: "string \<Rightarrow> (string \<times> string \<times> string option \<times> string) option"
  matchParamAttr :: "string \<Rightarrow> (string \<times> string \<times> string \<times> string option \<times> string) option"
  path_dirname :: "string \<Rightarrow> string"
  path_join :: "string list \<Rightarrow> string"

section \<open>FtlAnalyzer.ts: the diagnostic store and the warnings\<close>

text \<open>
  The fields of the class.  \<open>diagnostics\<close> is the \<^verbatim>\<open>Map\<close> from file URIs to lists of
  diagnostics, \<open>analyzer_ignore\<close> the set \<^verbatim>\<open>this.ignore\<close>.  A method takes the analyzer first
  and returns it updated.
\<close>

record Analyzer =
  sourceLocale :: string
  diagnostics :: "(string \<times> DiagnosticInfo list) list"
  analyzer_ignore :: "string list"
  useRelativePaths :: bool

definition getDiagnostics :: "Analyzer \<Rightarrow> DiagnosticInfo list" where
  "getDiagnostics an = concat (map snd (diagnostics an))"

definition getDiagnosticsForUri :: "Analyzer \<Rightarrow> string \<Rightarrow> DiagnosticInfo list" where
  "getDiagnosticsForUri an u = (case map_of (diagnostics an) u of Some ds \<Rightarrow> ds | None \<Rightarrow> [])"

text \<open>
  \<^verbatim>\<open>addDiagnostic\<close>: \<^verbatim>\<open>getOrDefault\<close> yields the list stored for the URI, or stores and yields
  a new empty list; the diagnostic (\<open>diagnosticOf\<close>, the object literal of the source) is pushed
  onto it.
\<close>

definition diagnosticOf :: "DiagnosticSeverity \<Rightarrow> FileInfo \<Rightarrow> IReportable \<Rightarrow> DiagnosticInfo" where
  "diagnosticOf sev file report =
     \<lparr>severity = sev,
      message = report_message report,
      code = report_code report,
      diag_uri = uri (path file),
      diag_range = spanToRange (report_span report) (content file)\<rparr>"

definition addDiagnostic ::
  "Analyzer \<Rightarrow> DiagnosticSeverity \<Rightarrow> FileInfo \<Rightarrow> IReportable \<Rightarrow> Analyzer" where
  "addDiagnostic an sev file report =
     (let u = uri (path file);
          existing = (case map_of (diagnostics an) u of Some ds \<Rightarrow> ds | None \<Rightarrow> [])
      in an\<lparr>diagnostics := AList.update u (existing @ [diagnosticOf sev file report]) (diagnostics an)\<rparr>)"

definition shouldIgnore :: "Analyzer \<Rightarrow> string \<Rightarrow> string list list \<Rightarrow> bool" where
  "shouldIgnore an c ignoreSets =
     (let cat = getWarningCategory c in
      list_ex (\<lambda>s. set_has s c \<or> set_has s cat) (ignoreSets @ [analyzer_ignore an]))"

definition addEntryWarning ::
  "Analyzer \<Rightarrow> FileInfo \<Rightarrow> EntryInfo \<Rightarrow> WarnCode \<Rightarrow> string list \<Rightarrow> Analyzer" where
  "addEntryWarning an file entry c args =
     (case entry of
        MessageEntry m \<Rightarrow>
          if isTrue (ignoreAll m) then an
          else if shouldIgnore an (codeName c) [ignore m] then an
          else addDiagnostic an Warning file (createWarning c (idSpan m) args)
      | AttributeEntry a \<Rightarrow>
          addDiagnostic an Warning file (createWarning c (idSpan a) args))"

definition addError :: "Analyzer \<Rightarrow> FileInfo \<Rightarrow> IReportable \<Rightarrow> Analyzer" where
  "addError an file report = addDiagnostic an Error file report"

definition addWarning ::
  "Analyzer \<Rightarrow> FileInfo \<Rightarrow> WarnCode \<Rightarrow> ISpan \<Rightarrow> string list \<Rightarrow> Analyzer" where
  "addWarning an file c span args = addDiagnostic an Warning file (createWarning c span args)"

definition getDisplayPath :: "Analyzer \<Rightarrow> FileInfo \<Rightarrow> string" where
  "getDisplayPath an file = (if useRelativePaths an then relative (path file) else absolute (path file))"

text \<open>\<^verbatim>\<open>file.ignore?.has(c)\<close>.\<close>

fun fileIgnores :: "FileInfo \<Rightarrow> string \<Rightarrow> bool" where
  "fileIgnores file c = (case file_ignore file of None \<Rightarrow> False | Some s \<Rightarrow> set_has s c)"

definition addMissingFileWarning :: "Runtime \<Rightarrow> Analyzer \<Rightarrow> FileInfo \<Rightarrow> string \<Rightarrow> Analyzer" where
  "addMissingFileWarning rt an srcFile loc =
     (if fileIgnores srcFile ''missing-file'' then an
      else addWarning an srcFile MissingFile \<lparr>span_start = 0, span_end = 0\<rparr>
             [path_join rt [path_dirname rt (path_dirname rt (getDisplayPath an srcFile)),
                            loc, file_name srcFile @ ''.ftl'']])"

definition addMissingMessageWarning :: "Analyzer \<Rightarrow> FileInfo \<Rightarrow> MessageInfo \<Rightarrow> Analyzer" where
  "addMissingMessageWarning an file m =
     (if fileIgnores file ''missing-message'' then an
      else if translate m \<noteq> Required then an
      else addWarning an file MissingMessage \<lparr>span_start = - 1, span_end = - 1\<rparr> [name m])"

definition addUnknownFileWarning :: "Analyzer \<Rightarrow> FileInfo \<Rightarrow> Analyzer" where
  "addUnknownFileWarning an file =
     (if fileIgnores file ''unknown-file'' then an
      else addWarning an file UnknownFile \<lparr>span_start = 0, span_end = 0\<rparr> [getDisplayPath an file])"

section \<open>FtlAnalyzer.ts: parameters and variables\<close>

definition paramLabel :: "bool \<Rightarrow> EntryInfo \<Rightarrow> string \<Rightarrow> string" where
  "paramLabel isAttr entry x =
     (if isAttr then ''@param-attribute '' @ entry_ident entry @ '' $'' @ x else ''@param $'' @ x)"

text \<open>
  \<^verbatim>\<open>checkParams\<close>.  The source entry arrives as the result of a table read (or as the optional
  argument of \<^verbatim>\<open>checkMessageParams\<close>): a truthy value that is no entry has no \<^verbatim>\<open>params\<close>, and
  \<^verbatim>\<open>Object.values\<close> of \<^verbatim>\<open>undefined\<close> throws before anything is reported.  The bodies of the three
  loops follow: \<open>overlayParam\<close> for the loop over the entry's own parameters (the source's
  parameter of that name is read, overwritten and compared by type), \<open>checkVariable\<close> for the
  loop over the variables of the entry, \<open>checkRequired\<close> for the loop over the overlaid
  parameters.
\<close>

definition overlayParam ::
  "FileInfo \<Rightarrow> EntryInfo \<Rightarrow> bool \<Rightarrow> ParamInfo
     \<Rightarrow> (string \<times> ParamInfo) list \<times> Analyzer \<Rightarrow> (string \<times> ParamInfo) list \<times> Analyzer" where
  "overlayParam file entry isAttr p = (\<lambda>(r, an).
     (AList.update (param_id p) p r,
      if (case rec_get r (param_id p) of
            Own srcParam \<Rightarrow> param_type srcParam \<noteq> param_type p
          | Inherited \<Rightarrow> None \<noteq> param_type p
          | Missing \<Rightarrow> False)
      then addEntryWarning an file entry AnnotationTypeMismatch
             [paramLabel isAttr entry (param_id p),
              if isAttr then ''attribute'' else ''message'', entry_name entry]
      else an))"

definition checkVariable ::
  "FileInfo \<Rightarrow> EntryInfo \<Rightarrow> EntryInfo property \<Rightarrow> bool \<Rightarrow> bool \<Rightarrow> (string \<times> ParamInfo) list
     \<Rightarrow> string \<Rightarrow> Analyzer \<Rightarrow> Analyzer" where
  "checkVariable file entry srcEntry isSrc isAttr ps v an =
     (let an1 = (if isSrc \<and> \<not> truthy (rec_get ps v)
                 then addEntryWarning an file entry AnnotationMissing
                        [paramLabel isAttr entry v,
                         if isAttr then ''attribute'' else ''message'', entry_name entry]
                 else an)
      in case srcEntry of
           Own e \<Rightarrow>
             if isSrc then an1
             else if \<not> set_has (entry_variables e) v \<and> \<not> truthy (rec_get ps v)
             then addEntryWarning an1 file entry UnknownVariable
                    [''$'' @ v, if isAttr then ''attribute'' else ''message'']
             else an1
         | _ \<Rightarrow> an1)"

definition checkRequired :: "FileInfo \<Rightarrow> EntryInfo \<Rightarrow> bool \<Rightarrow> ParamInfo \<Rightarrow> Analyzer \<Rightarrow> Analyzer" where
  "checkRequired file entry isAttr p an =
     (if \<not> required p \<or> set_has (entry_variables entry) (param_id p) then an
      else addEntryWarning an file entry MissingRequiredVariable
             [''$'' @ param_id p, if isAttr then ''attribute'' else ''message'', entry_name entry])"

definition checkParams ::
  "Analyzer \<Rightarrow> FileInfo \<Rightarrow> EntryInfo \<Rightarrow> EntryInfo property \<Rightarrow> bool \<Rightarrow> bool \<Rightarrow> error + Analyzer" where
  "checkParams an file entry srcEntry isSrc isAttr =
     (if srcEntry = Inherited then Inl TypeError
      else
       (let params0 = (case srcEntry of
                         Own e \<Rightarrow> fold (\<lambda>p r. AList.update (param_id p) p r) (map snd (entry_params e)) []
                       | _ \<Rightarrow> []);
            (params1, an1) =
              fold (overlayParam file entry isAttr) (map snd (entry_params entry)) (params0, an);
            an2 = fold (checkVariable file entry srcEntry isSrc isAttr params1)
                    (entry_variables entry) an1
        in Inr (fold (checkRequired file entry isAttr) (map snd params1) an2)))"

text \<open>
  \<^verbatim>\<open>checkMessageParams\<close>: the message itself, then each of its attributes against the
  attribute of the same name in \<^verbatim>\<open>srcMessage?.attributes ?? {}\<close>.
\<close>

definition checkMessageParams ::
  "Analyzer \<Rightarrow> FileInfo \<Rightarrow> MessageInfo \<Rightarrow> MessageInfo option \<Rightarrow> bool \<Rightarrow> error + Analyzer" where
  "checkMessageParams an file m srcMessage isSrc =
     bindE (checkParams an file (MessageEntry m)
              (case srcMessage of None \<Rightarrow> Missing | Some sm \<Rightarrow> Own (MessageEntry sm)) isSrc False)
       (\<lambda>an1.
          (let srcAttributes = (case srcMessage of None \<Rightarrow> [] | Some sm \<Rightarrow> attributes sm) in
           foldE (\<lambda>attr a. checkParams a file (AttributeEntry attr)
                             (map_property AttributeEntry (rec_get srcAttributes (ident attr)))
                             isSrc True)
                 (map snd (attributes m)) an1))"

section \<open>FtlAnalyzer.ts: a group without a source group\<close>

text \<open>
  \<^verbatim>\<open>checkSourceGroup\<close>, one file at a time: the loop over the messages with the set
  \<^verbatim>\<open>seenMessages\<close>, then the loop over the terms with the set \<^verbatim>\<open>seenTerms\<close>.
\<close>

definition checkSourceMessage ::
  "FileInfo \<Rightarrow> MessageInfo \<Rightarrow> string list \<times> Analyzer \<Rightarrow> error + (string list \<times> Analyzer)" where
  "checkSourceMessage file m = (\<lambda>(seenMessages, an).
     (let an1 = (if set_has seenMessages (ident m)
                 then addEntryWarning an file (MessageEntry m) Duplicate [''message'', name m]
                 else an)
      in bindE (checkMessageParams an1 file m None True)
           (\<lambda>an2. Inr (set_add (ident m) seenMessages, an2))))"

definition checkSourceTerm ::
  "FileInfo \<Rightarrow> TermInfo \<Rightarrow> string list \<times> Analyzer \<Rightarrow> string list \<times> Analyzer" where
  "checkSourceTerm file t = (\<lambda>(seenTerms, an).
     (set_add (ident t) seenTerms,
      if set_has seenTerms (ident t)
      then addEntryWarning an file (MessageEntry t) Duplicate [''term'', name t]
      else an))"

definition checkSourceFile :: "FileInfo \<Rightarrow> Analyzer \<Rightarrow> error + Analyzer" where
  "checkSourceFile file an =
     bindE (foldE (checkSourceMessage file) (messages file) ([], an))
       (\<lambda>(seenMessages, an1). Inr (snd (fold (checkSourceTerm file) (terms file) ([], an1))))"

definition checkSourceGroup :: "Analyzer \<Rightarrow> FileGroup \<Rightarrow> error + Analyzer" where
  "checkSourceGroup an g = foldE checkSourceFile (map snd (files g)) an"

section \<open>FtlAnalyzer.ts: comparison with the source locale\<close>

text \<open>
  \<^verbatim>\<open>(a.expectIdentical || b.expectIdentical) ?? false\<close>: the flags are \<^verbatim>\<open>undefined\<close> or booleans,
  so the value is \<^verbatim>\<open>true\<close> exactly when one of them is \<^verbatim>\<open>true\<close>.
\<close>

definition expectEq :: "bool option \<Rightarrow> bool option \<Rightarrow> bool" where
  "expectEq a b = (isTrue a \<or> isTrue b)"

text \<open>
  \<^verbatim>\<open>compareAttributes\<close>.  \<open>srcAttributes\<close> is \<open>None\<close> when the caller passes \<^verbatim>\<open>undefined\<close> (the
  \<^verbatim>\<open>attributes\<close> of a value that is no term); reading a key of it throws, and so does
  \<^verbatim>\<open>Object.values\<close> of it.  A source attribute that is \<open>Inherited\<close> is truthy and has neither
  \<^verbatim>\<open>translate\<close> nor \<^verbatim>\<open>value\<close> nor \<^verbatim>\<open>expectIdentical\<close>.
\<close>

definition compareTermAttribute ::
  "FileInfo \<Rightarrow> (string \<times> AttributeInfo) list \<Rightarrow> AttributeInfo \<Rightarrow> Analyzer \<Rightarrow> Analyzer" where
  "compareTermAttribute file srcAttributes attr an =
     (if (case rec_get srcAttributes (ident attr) of
            Own srcAttr \<Rightarrow> translate srcAttr = Disallowed
          | _ \<Rightarrow> False)
      then addEntryWarning an file (AttributeEntry attr) DoNotTranslate [''Attribute'', name attr]
      else an)"

definition compareMessageAttribute ::
  "FileInfo \<Rightarrow> MessageInfo \<Rightarrow> (string \<times> AttributeInfo) list \<Rightarrow> AttributeInfo
     \<Rightarrow> string list \<times> Analyzer \<Rightarrow> string list \<times> Analyzer" where
  "compareMessageAttribute file entry srcAttributes attr = (\<lambda>(attrSet, an).
     (set_add (ident attr) attrSet,
      (case rec_get srcAttributes (ident attr) of
         Missing \<Rightarrow>
           if \<not> shouldIgnore an ''unknown-attribute'' [ignore entry]
           then addEntryWarning an file (AttributeEntry attr) UnknownAttribute [ident attr]
           else an
       | srcAttr \<Rightarrow>
           (let srcTranslate = (case srcAttr of Own sa \<Rightarrow> Some (translate sa) | _ \<Rightarrow> None);
                srcValue = (case srcAttr of Own sa \<Rightarrow> val sa | _ \<Rightarrow> None);
                srcExpect = (case srcAttr of Own sa \<Rightarrow> expectIdentical sa | _ \<Rightarrow> None);
                an1 = (if srcTranslate = Some Disallowed
                          \<and> \<not> shouldIgnore an ''do-not-translate'' [ignore entry]
                       then addEntryWarning an file (AttributeEntry attr) DoNotTranslate
                              [''Attribute'', name attr]
                       else an);
                isEq = patternsEqual (of_option (val attr)) (of_option srcValue);
                expected = expectEq (expectIdentical attr) srcExpect
            in if isEq \<noteq> expected
               then addEntryWarning an1 file (AttributeEntry attr)
                      (if isEq then Identical else MismatchIdentical) [''Attribute'', name attr]
               else an1))))"

definition missingAttribute ::
  "FileInfo \<Rightarrow> MessageInfo \<Rightarrow> string list \<Rightarrow> AttributeInfo \<Rightarrow> Analyzer \<Rightarrow> Analyzer" where
  "missingAttribute file entry attrSet srcAttr an =
     (if translate srcAttr \<noteq> Required then an
      else if \<not> set_has attrSet (ident srcAttr)
      then addEntryWarning an file (MessageEntry entry) MissingAttribute
             [name entry @ ''.'' @ ident srcAttr]
      else an)"

definition compareAttributes ::
  "Analyzer \<Rightarrow> FileInfo \<Rightarrow> MessageInfo \<Rightarrow> (string \<times> AttributeInfo) list option \<Rightarrow> error + Analyzer" where
  "compareAttributes an file entry srcAttributes =
     (if isTerm entry then
        (case srcAttributes of
           None \<Rightarrow> if attributes entry = [] then Inr an else Inl TypeError
         | Some sa \<Rightarrow> Inr (fold (compareTermAttribute file sa) (map snd (attributes entry)) an))
      else
        (case srcAttributes of
           None \<Rightarrow> Inl TypeError
         | Some sa \<Rightarrow>
             (let (attrSet, an1) =
                    fold (compareMessageAttribute file entry sa) (map snd (attributes entry)) ([], an)
              in Inr (fold (missingAttribute file entry attrSet) (map snd sa) an1))))"

text \<open>
  \<^verbatim>\<open>compareMessages\<close>.  The second step is the check of lines 665 to 677: the condition is
  \<^verbatim>\<open>isEq !== expectEq && (!isEq || message.value)\<close>.
\<close>

definition compareMessageValues :: "Analyzer \<Rightarrow> FileInfo \<Rightarrow> MessageInfo \<Rightarrow> MessageInfo \<Rightarrow> Analyzer" where
  "compareMessageValues an file m srcMessage =
     (let isEq = patternsEqual (of_option (val m)) (of_option (val srcMessage));
          expected = expectEq (expectIdentical m) (expectIdentical srcMessage)
      in if isEq \<noteq> expected \<and> (\<not> isEq \<or> val m \<noteq> None)
         then addEntryWarning an file (MessageEntry m)
                (if isEq then Identical else MismatchIdentical) [''Message'', name m]
         else an)"

definition compareMessages ::
  "Analyzer \<Rightarrow> FileInfo \<Rightarrow> MessageInfo \<Rightarrow> MessageInfo \<Rightarrow> error + Analyzer" where
  "compareMessages an file m srcMessage =
     (let an1 = (if translate srcMessage = Disallowed
                 then addEntryWarning an file (MessageEntry m) DoNotTranslate [''Message'', name m]
                 else an);
          an2 = compareMessageValues an1 file m srcMessage
      in bindE (checkMessageParams an2 file m (Some srcMessage) False)
           (\<lambda>an3. compareAttributes an3 file m (Some (attributes srcMessage))))"

text \<open>
  \<^verbatim>\<open>compareFiles\<close>, in its four parts.  The accumulator of the loop over the target's terms is
  the empty record it starts with: the loop body never assigns to it, so \<^verbatim>\<open>rec[term.id]\<close> is a
  read of the empty record.  The accumulator of the loop over the target's messages gets
  every message.  A message found under a source message's name that is no message (an
  \<open>Inherited\<close> value) has no \<^verbatim>\<open>idSpan\<close> and no \<^verbatim>\<open>params\<close>: \<^verbatim>\<open>compareMessages\<close> throws on it, in
  reporting a warning or at the latest in \<^verbatim>\<open>checkParams\<close>.
\<close>

definition compareTerm ::
  "FileInfo \<Rightarrow> (string \<times> TermInfo) list \<Rightarrow> TermInfo \<Rightarrow> Analyzer \<Rightarrow> error + Analyzer" where
  "compareTerm file srcTermById t an =
     (let an1 = (if truthy (rec_get ([] :: (string \<times> TermInfo) list) (ident t))
                 then addEntryWarning an file (MessageEntry t) Duplicate [''term'', name t]
                 else an)
      in case rec_get srcTermById (ident t) of
           Missing \<Rightarrow> Inr an1
         | Own srcTerm \<Rightarrow> compareAttributes an1 file t (Some (attributes srcTerm))
         | Inherited \<Rightarrow> compareAttributes an1 file t None)"

definition indexMessage ::
  "FileInfo \<Rightarrow> MessageInfo \<Rightarrow> (string \<times> MessageInfo) list \<times> Analyzer
     \<Rightarrow> (string \<times> MessageInfo) list \<times> Analyzer" where
  "indexMessage file m = (\<lambda>(r, an).
     (AList.update (ident m) m r,
      if truthy (rec_get r (ident m))
      then addEntryWarning an file (MessageEntry m) Duplicate [''message'', name m]
      else an))"

definition compareSourceMessage ::
  "FileInfo \<Rightarrow> (string \<times> MessageInfo) list \<Rightarrow> MessageInfo \<Rightarrow> Analyzer \<Rightarrow> error + Analyzer" where
  "compareSourceMessage file messageById srcMessage an =
     (case rec_get messageById (ident srcMessage) of
        Missing \<Rightarrow> Inr (addMissingMessageWarning an file srcMessage)
      | Own m \<Rightarrow> compareMessages an file m srcMessage
      | Inherited \<Rightarrow> Inl TypeError)"

definition unknownMessage :: "FileInfo \<Rightarrow> string list \<Rightarrow> MessageInfo \<Rightarrow> Analyzer \<Rightarrow> Analyzer" where
  "unknownMessage file srcMessageSet m an =
     (if \<not> set_has srcMessageSet (ident m)
      then addEntryWarning an file (MessageEntry m) UnknownMessage [ident m]
      else an)"

text \<open>
  The target file arrives as the result of the read \<^verbatim>\<open>fileByName[srcFile.name]\<close>.  A truthy
  value that is no file has neither \<^verbatim>\<open>path\<close> nor \<^verbatim>\<open>terms\<close>: the bundle warning throws in
  \<^verbatim>\<open>getDisplayPath\<close>, and without it \<^verbatim>\<open>file.terms.reduce\<close> throws, in both cases before anything
  is reported.
\<close>

definition compareFiles ::
  "Runtime \<Rightarrow> Analyzer \<Rightarrow> FileInfo property \<Rightarrow> FileInfo \<Rightarrow> string \<Rightarrow> error + Analyzer" where
  "compareFiles rt an fileP srcFile loc =
     (case fileP of
        Missing \<Rightarrow> Inr (addMissingFileWarning rt an srcFile loc)
      | Inherited \<Rightarrow> Inl TypeError
      | Own file \<Rightarrow>
          if file_bundle file \<noteq> file_bundle srcFile
          then Inr (addWarning an file MismatchFileBundle \<lparr>span_start = 0, span_end = 0\<rparr>
                      [getDisplayPath an file, getBundleDisplay (file_bundle file),
                       getBundleDisplay (file_bundle srcFile)])
          else
            (let srcTermById = fold (\<lambda>t r. AList.update (ident t) t r) (terms srcFile) [] in
             bindE (foldE (compareTerm file srcTermById) (terms file) an)
               (\<lambda>an1.
                  (let (messageById, an2) = fold (indexMessage file) (messages file) ([], an1);
                       srcMessageSet = fold (\<lambda>sm ss. set_add (ident sm) ss) (messages srcFile) []
                   in bindE (foldE (compareSourceMessage file messageById) (messages srcFile) an2)
                        (\<lambda>an3. Inr (fold (unknownMessage file srcMessageSet) (messages file) an3))))))"

text \<open>
  \<^verbatim>\<open>compareGroups\<close>.  The table \<^verbatim>\<open>fileByName\<close> is keyed by file names, which are not identifiers:
  the assignment \<^verbatim>\<open>rec[file.name] = file\<close> for a file named \<^verbatim>\<open>__proto__\<close> makes that file the
  prototype of the table instead of adding a key.  \<open>fileByName_get\<close> is the read
  \<^verbatim>\<open>fileByName[k]\<close> after the table was built from the files \<open>fs\<close> in order: the prototype
  itself for \<^verbatim>\<open>__proto__\<close>; the last file of that name; else a field of the prototype file
  (\<open>fileField\<close>, falsy for an empty string and for a zero hash); else a member of
  \<^verbatim>\<open>Object.prototype\<close>.  \<open>Missing\<close> here is any falsy value.
\<close>

definition fileField :: "FileInfo \<Rightarrow> string \<Rightarrow> FileInfo property" where
  "fileField P k =
     (if k = ''name'' then (if file_name P \<noteq> [] then Inherited else Missing)
      else if k = ''content'' then (if content P \<noteq> [] then Inherited else Missing)
      else if k = ''path'' \<or> k = ''terms'' \<or> k = ''messages'' then Inherited
      else if k = ''bundle'' \<and> file_bundle P \<noteq> None
        then (if file_bundle P \<noteq> Some [] then Inherited else Missing)
      else if k = ''ignore'' \<and> file_ignore P \<noteq> None then Inherited
      else if k = ''hash'' \<and> hash P \<noteq> None
        then (if hash P \<noteq> Some 0 then Inherited else Missing)
      else rec_get [] k)"

definition fileByName_get :: "FileInfo list \<Rightarrow> string \<Rightarrow> FileInfo property" where
  "fileByName_get fs k =
     (let proto = find (\<lambda>f. file_name f = ''__proto__'') (rev fs) in
      if k = ''__proto__'' then (case proto of Some P \<Rightarrow> Own P | None \<Rightarrow> Inherited)
      else case find (\<lambda>f. file_name f = k) (rev fs) of
             Some f \<Rightarrow> Own f
           | None \<Rightarrow> (case proto of Some P \<Rightarrow> fileField P k | None \<Rightarrow> rec_get [] k))"

definition compareGroupFile ::
  "Runtime \<Rightarrow> FileGroup \<Rightarrow> FileInfo \<Rightarrow> Analyzer \<Rightarrow> error + Analyzer" where
  "compareGroupFile rt g srcFile an =
     (case fileByName_get (map snd (files g)) (file_name srcFile) of
        Missing \<Rightarrow> Inr (addMissingFileWarning rt an srcFile (group_locale g))
      | file \<Rightarrow> compareFiles rt an file srcFile (group_locale g))"

definition unknownFile :: "string list \<Rightarrow> FileInfo \<Rightarrow> Analyzer \<Rightarrow> Analyzer" where
  "unknownFile srcFileSet file an =
     (if \<not> set_has srcFileSet (file_name file) then addUnknownFileWarning an file else an)"

definition compareGroups :: "Runtime \<Rightarrow> Analyzer \<Rightarrow> FileGroup \<Rightarrow> FileGroup \<Rightarrow> error + Analyzer" where
  "compareGroups rt an g srcGroup =
     (let srcFileSet = fold (\<lambda>sf ss. set_add (file_name sf) ss) (map snd (files srcGroup)) [] in
      bindE (foldE (compareGroupFile rt g) (map snd (files srcGroup)) an)
        (\<lambda>an1. Inr (fold (unknownFile srcFileSet) (map snd (files g)) an1)))"

section \<open>FtlAnalyzer.ts: annotations\<close>

text \<open>
  \<^verbatim>\<open>handleDiagnosticAnnotation\<close> works on a message, a term or the annotation state; it reads and
  writes the two fields \<^verbatim>\<open>ignoreAll\<close> and \<^verbatim>\<open>ignore\<close> of its target, which are passed and returned
  here as a pair.  In the source, as here, the codes of an \<^verbatim>\<open>enable\<close> are added to the ignore
  set and the codes of a \<^verbatim>\<open>disable\<close> are deleted from it.
\<close>

definition handleDiagnosticAnnotation ::
  "bool option \<times> string list \<Rightarrow> AnnotationItem \<Rightarrow> bool option \<times> string list" where
  "handleDiagnosticAnnotation target annot =
     (let value0 = annot_value annot;
          space = indexOf value0 CHR '' '';
          firstWord = slice value0 0 (if space \<noteq> - 1 then Some (nat space) else None);
          enable = (firstWord = ''enable'');
          value1 = trim (slice value0 (nat (space + 1)) None)
      in if \<not> enable \<and> firstWord \<noteq> ''disable'' then target
         else
          (let sliceEnd = indexOf value1 CHR ''#'';
               value2 = trim (slice value1 0 (if sliceEnd \<noteq> - 1 then Some (nat sliceEnd) else None));
               all = (if value2 = [] then Some (\<not> enable) else fst target);
               list = filter (\<lambda>x. x \<noteq> []) (map trim (splitOn CHR '','' value2))
           in (all, if enable then fold set_add list (snd target)
                    else fold set_delete list (snd target))))"

text \<open>
  \<^verbatim>\<open>handleParamAnnotation\<close>.  \<^verbatim>\<open>matches[shift + 2].trim()\<close> is a method call on \<^verbatim>\<open>undefined\<close> when
  the group of the type took no part in the match.  An attribute found under the given name
  that is no attribute has no \<^verbatim>\<open>params\<close> to assign to.
\<close>

definition makeParam :: "string \<Rightarrow> string \<Rightarrow> string \<Rightarrow> string \<Rightarrow> ParamInfo" where
  "makeParam x opt ty rest =
     \<lparr>param_id = x,
      required = (opt \<noteq> ''?''),
      param_type = (if trim ty \<noteq> [] then Some (trim ty) else None),
      param_comment = (if trim rest \<noteq> [] then Some (trim rest) else None)\<rparr>"

definition handleParamAnnotation ::
  "Runtime \<Rightarrow> MessageInfo \<Rightarrow> AnnotationItem \<Rightarrow> error + MessageInfo" where
  "handleParamAnnotation rt info annot =
     (if annot_name annot = ''@param-attribute'' then
        (case matchParamAttr rt (annot_value annot) of
           None \<Rightarrow> Inr info
         | Some (attrName, x, opt, ty, rest) \<Rightarrow>
             (case ty of
                None \<Rightarrow> Inl TypeError
              | Some t \<Rightarrow>
                  if attrName = [] then Inr (info\<lparr>params := AList.update x (makeParam x opt t rest) (params info)\<rparr>)
                  else (case rec_get (attributes info) attrName of
                          Missing \<Rightarrow> Inr info
                        | Inherited \<Rightarrow> Inl TypeError
                        | Own attr \<Rightarrow>
                            Inr (info\<lparr>attributes :=
                                   AList.update attrName
                                     (attr\<lparr>params := AList.update x (makeParam x opt t rest) (params attr)\<rparr>)
                                     (attributes info)\<rparr>))))
      else
        (case matchParam rt (annot_value annot) of
           None \<Rightarrow> Inr info
         | Some (x, opt, ty, rest) \<Rightarrow>
             (case ty of
                None \<Rightarrow> Inl TypeError
              | Some t \<Rightarrow> Inr (info\<lparr>params := AList.update x (makeParam x opt t rest) (params info)\<rparr>))))"

text \<open>
  \<^verbatim>\<open>handleTargetedAnnotation\<close>.  The first \<^verbatim>\<open>switch\<close> picks the property and the value to assign;
  \<open>assignTo\<close> is that assignment on an element.  When the name after the annotation reads as
  a member inherited from \<^verbatim>\<open>Object.prototype\<close>, the assignment goes to that member and the
  method returns with the entry as it was.
\<close>

datatype TargetedProp = SetExpectIdentical | SetTranslate TranslateType

definition targetedProp :: "string \<Rightarrow> TargetedProp option" where
  "targetedProp n =
     (if n = ''@expect-identical'' then Some SetExpectIdentical
      else if n = ''@translate'' then Some (SetTranslate Required)
      else if n = ''@do-not-translate'' then Some (SetTranslate Disallowed)
      else if n = ''@translate-optional'' then Some (SetTranslate Optional)
      else None)"

fun assignTo :: "TargetedProp \<Rightarrow> ('a ElementInfo_scheme) \<Rightarrow> ('a ElementInfo_scheme)" where
  "assignTo SetExpectIdentical e = e\<lparr>expectIdentical := Some True\<rparr>"
| "assignTo (SetTranslate t) e = e\<lparr>translate := t\<rparr>"

definition handleTargetedAnnotation :: "MessageInfo \<Rightarrow> AnnotationItem \<Rightarrow> error + MessageInfo" where
  "handleTargetedAnnotation info annot =
     (case targetedProp (annot_name annot) of
        None \<Rightarrow> Inl BadArgument
      | Some prop \<Rightarrow>
          (let sliceEnd = indexOf (annot_value annot) CHR ''#'';
               annotValue = trim (slice (annot_value annot) 0
                                   (if sliceEnd \<noteq> - 1 then Some (nat sliceEnd) else None))
           in if annotValue = [] then Inr (assignTo prop info)
              else if annotValue = ''*''
                then Inr (info\<lparr>attributes := map (\<lambda>(k, attr). (k, assignTo prop attr)) (attributes info)\<rparr>)
              else (case rec_get (attributes info) annotValue of
                      Missing \<Rightarrow> Inr info
                    | Inherited \<Rightarrow> Inr info
                    | Own attr \<Rightarrow>
                        Inr (info\<lparr>attributes :=
                               AList.update annotValue (assignTo prop attr) (attributes info)\<rparr>))))"

definition handleEntryAnnotation ::
  "Runtime \<Rightarrow> AnnotationItem \<Rightarrow> MessageInfo \<Rightarrow> error + MessageInfo" where
  "handleEntryAnnotation rt annot info =
     (let n = annot_name annot in
      if n = ''@diagnostic'' then
        (let (all, ign) = handleDiagnosticAnnotation (ignoreAll info, ignore info) annot
         in Inr (info\<lparr>ignoreAll := all, ignore := ign\<rparr>))
      else if n = ''@param'' \<or> n = ''@param-attribute'' then handleParamAnnotation rt info annot
      else if n = ''@expect-identical'' then handleTargetedAnnotation info annot
      else if n = ''@translate'' \<or> n = ''@do-not-translate'' \<or> n = ''@translate-optional''
        then handleTargetedAnnotation info annot
      else Inr info)"

definition handleEntryAnnotations ::
  "Runtime \<Rightarrow> MessageInfo \<Rightarrow> AnnotationItem list \<Rightarrow> error + MessageInfo" where
  "handleEntryAnnotations rt info annots = foldE (handleEntryAnnotation rt) annots info"

definition handleResourceAnnotation :: "AnnotationItem \<Rightarrow> AnnotationState \<Rightarrow> AnnotationState" where
  "handleResourceAnnotation annot state =
     (let n = annot_name annot in
      if n = ''@diagnostic'' then
        (let (all, ign) = handleDiagnosticAnnotation (state_ignoreAll state, state_ignore state) annot
         in state\<lparr>state_ignoreAll := all, state_ignore := ign\<rparr>)
      else if n = ''@global'' then state\<lparr>state_global := Some True\<rparr>
      else if n = ''@bundle''
        then state\<lparr>state_bundle := (if annot_value annot \<noteq> [] then Some (annot_value annot) else None)\<rparr>
      else if n = ''@translate'' then state\<lparr>state_translate := Required\<rparr>
      else if n = ''@do-not-translate'' then state\<lparr>state_translate := Disallowed\<rparr>
      else if n = ''@translate-optional'' then state\<lparr>state_translate := Optional\<rparr>
      else state)"

definition handleResourceAnnotations :: "AnnotationState \<Rightarrow> AnnotationItem list \<Rightarrow> AnnotationState" where
  "handleResourceAnnotations state annots = fold handleResourceAnnotation annots state"

section \<open>FtlAnalyzer.ts: reading a file\<close>

text \<open>
  \<^verbatim>\<open>convertMessage\<close>.  The attributes are converted in order into a record that starts empty;
  an attribute whose name reads as truthy from the record so far is reported as a duplicate,
  on the file of the annotation state.  The annotations of the comment are handled last.
\<close>

definition convertAttribute ::
  "AnnotationState \<Rightarrow> string \<Rightarrow> Attribute
     \<Rightarrow> (string \<times> AttributeInfo) list \<times> Analyzer \<Rightarrow> (string \<times> AttributeInfo) list \<times> Analyzer" where
  "convertAttribute state ownerName attr = (\<lambda>(r, an).
     (let attrInfo = \<lparr>ident = attr_id_name attr,
                      name = ownerName @ ''.'' @ attr_id_name attr,
                      val = Some (attr_value attr),
                      idSpan = attr_id_span attr,
                      translate = state_translate state,
                      expectIdentical = None,
                      params = [],
                      variables = collectVariables (Present (attr_value attr))\<rparr>
      in (AList.update (attr_id_name attr) attrInfo r,
          if truthy (rec_get r (attr_id_name attr))
          then addEntryWarning an (state_file state) (AttributeEntry attrInfo) Duplicate
                 [''attribute'', name attrInfo]
          else an)))"

definition convertMessage ::
  "Runtime \<Rightarrow> Analyzer \<Rightarrow> ParsedEntry \<Rightarrow> AnnotationState \<Rightarrow> bool \<Rightarrow> error + (MessageInfo \<times> Analyzer)" where
  "convertMessage rt an entry state isTerm' =
     (let span = entry_id_span entry;
          name' = (if isTerm' then ''-'' @ entry_id_name entry else entry_id_name entry);
          (attrs, an1) = fold (convertAttribute state name') (entry_attributes entry) ([], an);
          info = \<lparr>ident = entry_id_name entry,
                  name = name',
                  val = entry_value entry,
                  idSpan = \<lparr>span_start = (if isTerm' then span_start span - 1 else span_start span),
                            span_end = span_end span\<rparr>,
                  translate = state_translate state,
                  expectIdentical = None,
                  params = [],
                  variables = collectVariables (case entry_value entry of None \<Rightarrow> Null | Some p \<Rightarrow> Present p),
                  isTerm = isTerm',
                  comment = None,
                  attributes = attrs,
                  ignoreAll = None,
                  ignore = state_ignore state\<rparr>
      in case entry_comment entry of
           None \<Rightarrow> Inr (info, an1)
         | Some text \<Rightarrow>
             (let ex = readAnnots text in
              bindE (handleEntryAnnotations rt info (annotations ex))
                (\<lambda>info1. Inr (if extracted_comment ex \<noteq> []
                               then info1\<lparr>comment := Some (extracted_comment ex)\<rparr>
                               else info1, an1))))"

text \<open>
  \<^verbatim>\<open>read\<close>.  The list stored for the file's URI is deleted first.  \<^verbatim>\<open>parse\<close> is inlined: when
  the file cannot be read, \<^verbatim>\<open>read\<close> returns with the file as it was; else the file gets its
  content and hash and the items are walked.  The file is an object that \<^verbatim>\<open>read\<close> changes in
  place; here it is passed in and returned.
\<close>

definition readEntry ::
  "Runtime \<Rightarrow> Entry \<Rightarrow> Analyzer \<times> FileInfo \<times> AnnotationState
     \<Rightarrow> error + (Analyzer \<times> FileInfo \<times> AnnotationState)" where
  "readEntry rt entry = (\<lambda>(an, file, state).
     (case entry of
        Term e \<Rightarrow>
          bindE (convertMessage rt an e (state\<lparr>state_file := file\<rparr>) True)
            (\<lambda>(info, an1). Inr (an1, file\<lparr>terms := terms file @ [info]\<rparr>, state))
      | Message e \<Rightarrow>
          bindE (convertMessage rt an e (state\<lparr>state_file := file\<rparr>) False)
            (\<lambda>(info, an1). Inr (an1, file\<lparr>messages := messages file @ [info]\<rparr>, state))
      | ResourceComment text \<Rightarrow>
          Inr (an, file, handleResourceAnnotations state (annotations (readAnnots text)))
      | Junk annots \<Rightarrow> Inr (fold (\<lambda>annot a. addError a file annot) annots an, file, state)
      | OtherEntry \<Rightarrow> Inr (an, file, state)))"

definition addFileIgnore :: "string \<Rightarrow> FileInfo \<Rightarrow> FileInfo" where
  "addFileIgnore c file =
     file\<lparr>file_ignore := Some (set_add c (case file_ignore file of None \<Rightarrow> [] | Some s \<Rightarrow> s))\<rparr>"

definition finishRead :: "FileInfo \<Rightarrow> AnnotationState \<Rightarrow> FileInfo" where
  "finishRead file state =
     (let file1 = (if isTrue (state_global state) then file\<lparr>file_bundle := Some []\<rparr>
                   else if state_bundle state \<noteq> None \<and> state_bundle state \<noteq> Some []
                     then file\<lparr>file_bundle := state_bundle state\<rparr>
                   else file);
          ignoreUnknownFile = (isTrue (state_ignoreAll state)
                               \<or> set_has (state_ignore state) ''unknown-file''
                               \<or> set_has (state_ignore state) ''unknown'');
          file2 = (if ignoreUnknownFile then addFileIgnore ''unknown-file'' file1 else file1);
          ignoreMissingFile = (isTrue (state_ignoreAll state)
                               \<or> state_translate state \<noteq> Required
                               \<or> set_has (state_ignore state) ''missing-file''
                               \<or> set_has (state_ignore state) ''missing'')
      in if ignoreMissingFile then addFileIgnore ''missing-file'' file2 else file2)"

definition read :: "Runtime \<Rightarrow> Analyzer \<Rightarrow> FileInfo \<Rightarrow> error + (Analyzer \<times> FileInfo)" where
  "read rt an file =
     (let an0 = an\<lparr>diagnostics := AList.delete (uri (path file)) (diagnostics an)\<rparr> in
      case readFile rt (uri (path file)) of
        None \<Rightarrow> Inr (an0, file)
      | Some text \<Rightarrow>
          (let file0 = file\<lparr>content := text, hash := Some (murmurhash_v3 rt text)\<rparr>;
               state = \<lparr>state_translate = Required, state_file = file0, state_bundle = None,
                        state_global = None, state_ignore = [], state_ignoreAll = None\<rparr>
           in bindE (foldE (readEntry rt) (parse rt text) (an0, file0, state))
                (\<lambda>(an1, file1, state1). Inr (an1, finishRead file1 state1))))"

text \<open>\<^verbatim>\<open>readGroup\<close>: every file of the group is read; the group keeps its keys.\<close>

definition readGroupFile ::
  "Runtime \<Rightarrow> string \<times> FileInfo \<Rightarrow> Analyzer \<times> (string \<times> FileInfo) list
     \<Rightarrow> error + (Analyzer \<times> (string \<times> FileInfo) list)" where
  "readGroupFile rt = (\<lambda>(k, file) (an, done).
     bindE (read rt an file) (\<lambda>(an1, file1). Inr (an1, done @ [(k, file1)])))"

definition readGroup :: "Runtime \<Rightarrow> Analyzer \<Rightarrow> FileGroup \<Rightarrow> error + (Analyzer \<times> FileGroup)" where
  "readGroup rt an g =
     bindE (foldE (readGroupFile rt) (files g) (an, []))
       (\<lambda>(an1, fs). Inr (an1, g\<lparr>files := fs\<rparr>))"

section \<open>FtlAnalyzer.ts: a collection\<close>

text \<open>
  \<^verbatim>\<open>processCollection\<close>.  The groups are read first, in the order of the map.  The source group
  is the one stored under the analyzer's source locale; without it the method returns.  In the
  second loop a group is the source group when it is the value of that key.
\<close>

definition readCollectionGroup ::
  "Runtime \<Rightarrow> string \<times> FileGroup \<Rightarrow> Analyzer \<times> (string \<times> FileGroup) list
     \<Rightarrow> error + (Analyzer \<times> (string \<times> FileGroup) list)" where
  "readCollectionGroup rt = (\<lambda>(k, g) (an, done).
     bindE (readGroup rt an g) (\<lambda>(an1, g1). Inr (an1, done @ [(k, g1)])))"

definition processGroup ::
  "Runtime \<Rightarrow> string \<Rightarrow> FileGroup \<Rightarrow> string \<times> FileGroup \<Rightarrow> Analyzer \<Rightarrow> error + Analyzer" where
  "processGroup rt src srcGroup = (\<lambda>(k, g) an.
     if k = src then checkSourceGroup an g else compareGroups rt an g srcGroup)"

definition processCollection ::
  "Runtime \<Rightarrow> Analyzer \<Rightarrow> FileCollection \<Rightarrow> error + (Analyzer \<times> FileCollection)" where
  "processCollection rt an c =
     bindE (foldE (readCollectionGroup rt) (groups c) (an, []))
       (\<lambda>(an1, gs).
          (case map_of gs (sourceLocale an1) of
             None \<Rightarrow> Inr (an1, c\<lparr>groups := gs\<rparr>)
           | Some srcGroup \<Rightarrow>
               bindE (foldE (processGroup rt (sourceLocale an1) srcGroup) gs an1)
                 (\<lambda>an2. Inr (an2, c\<lparr>groups := gs\<rparr>))))"

definition processDiscoveredFiles ::
  "Runtime \<Rightarrow> Analyzer \<Rightarrow> DiscoveryResult \<Rightarrow> error + (Analyzer \<times> DiscoveryResult)" where
  "processDiscoveredFiles rt an discovered =
     bindE (foldE (\<lambda>c (a, done). bindE (processCollection rt a c) (\<lambda>(a1, c1). Inr (a1, done @ [c1])))
              (collections discovered) (an, []))
       (\<lambda>(an1, cs).
          bindE (readGroup rt an1 (ungrouped discovered))
            (\<lambda>(an2, g).
               bindE (checkSourceGroup an2 g)
                 (\<lambda>an3. Inr (an3, discovered\<lparr>collections := cs, ungrouped := g\<rparr>))))"

section \<open>discover.ts\<close>

text \<open>
  The file system as discovery reads it.  A directory is the list of the entries that
  \<^verbatim>\<open>readdir\<close> with \<^verbatim>\<open>withFileTypes\<close> returns for it, in that order; an entry is a file, a
  directory with its own entries, or something else (a link, a socket).  Every directory of the
  tree can be listed: a \<^verbatim>\<open>readdir\<close> that fails ends discovery without a result and is not part of
  the model.

  A path at or below the base directory is the list of the names that lead to it from there:
  \<^verbatim>\<open>path.join(curPath, name)\<close> appends a name and \<open>lookupDir root p\<close> is what \<^verbatim>\<open>readdir\<close> returns at
  \<open>p\<close>.  \<^verbatim>\<open>path.relative(basePath, p)\<close> joins the names with the separator, and the absolute path
  puts them behind the base path, which is taken to be absolute and without a separator at its
  end.  \<^verbatim>\<open>pathToFileURL\<close> puts the scheme in front; its percent-encoding, which is one to one, is
  left out.
\<close>

datatype Dirent = File string | Directory string "Dirent list" | Other string

fun dirent_name :: "Dirent \<Rightarrow> string" where
  "dirent_name (File n) = n"
| "dirent_name (Directory n es) = n"
| "dirent_name (Other n) = n"

definition isDirectory :: "Dirent \<Rightarrow> bool" where
  "isDirectory e = (case e of Directory n es \<Rightarrow> True | _ \<Rightarrow> False)"

fun lookupDir :: "Dirent list \<Rightarrow> string list \<Rightarrow> Dirent list option" where
  "lookupDir es [] = Some es"
| "lookupDir es (n # p) =
     (case find (\<lambda>e. dirent_name e = n) es of
        Some (Directory m cs) \<Rightarrow> lookupDir cs p
      | _ \<Rightarrow> None)"

definition relativePath :: "string list \<Rightarrow> string" where
  "relativePath p = joinWith ''/'' p"

definition absolutePath :: "string \<Rightarrow> string list \<Rightarrow> string" where
  "absolutePath basePath p = basePath @ concat (map (\<lambda>n. ''/'' @ n) p)"

definition pathToFileURL :: "string \<Rightarrow> string" where
  "pathToFileURL a = ''file://'' @ a"

text \<open>
  \<^verbatim>\<open>path.basename(p, ext)\<close> for a path that does not end in a separator: nothing when the path
  is the extension; else the last name of the path, without the extension when it ends with
  it and is more than it.
\<close>

definition basename :: "string \<Rightarrow> string \<Rightarrow> string" where
  "basename p ext =
     (if p = ext then []
      else (let b = last (splitOn (CHR ''/'') p) in
            if endsWith b ext \<and> b \<noteq> ext then take (length b - length ext) b else b))"

text \<open>\<^verbatim>\<open>getPathInfo\<close> and \<^verbatim>\<open>createFileRecord\<close> of helpers.ts; the URI is optional.\<close>

definition getPathInfo :: "string list \<Rightarrow> string \<Rightarrow> string option \<Rightarrow> PathInfo" where
  "getPathInfo itemPath basePath uri_opt =
     (let relative = relativePath itemPath;
          absolute = absolutePath basePath itemPath
      in \<lparr>uri = (case uri_opt of None \<Rightarrow> pathToFileURL absolute | Some u \<Rightarrow> u),
          absolute = absolute,
          relative = relative\<rparr>)"

definition createFileRecord :: "string list \<Rightarrow> string \<Rightarrow> string option \<Rightarrow> FileInfo" where
  "createFileRecord filePath basePath uri_opt =
     (let pathInfo = getPathInfo filePath basePath uri_opt in
      \<lparr>file_name = basename (relative pathInfo) ''.ftl'',
       path = pathInfo,
       content = [], terms = [], messages = [],
       file_bundle = None, file_ignore = None, hash = None\<rparr>)"

text \<open>
  \<^verbatim>\<open>isPathInside(childPath, basePath)\<close>.  The child is a path at or below the base directory, or
  \<open>None\<close> for the directory above it, which \<^verbatim>\<open>path.dirname\<close> of the base directory gives and to
  which the relative path is \<^verbatim>\<open>..\<close>.
\<close>

definition dirname :: "string list option \<Rightarrow> string list option" where
  "dirname p = (case p of None \<Rightarrow> None | Some q \<Rightarrow> if q = [] then None else Some (butlast q))"

definition relativeTo :: "string list option \<Rightarrow> string" where
  "relativeTo p = (case p of None \<Rightarrow> ''..'' | Some q \<Rightarrow> relativePath q)"

definition isAbsolute :: "string \<Rightarrow> bool" where
  "isAbsolute p = startsWith p ''/''"

definition isPathInside :: "string list option \<Rightarrow> bool" where
  "isPathInside childPath =
     (let relative = relativeTo childPath in
      if relative = [] then False
      else \<not> startsWith relative ''..'' \<and> \<not> isAbsolute relative)"

text \<open>
  \<^verbatim>\<open>getCollection\<close>.  The first loop returns nothing when an entry is not a directory; the second
  one returns nothing when a locale directory holds an entry that is not a file with the
  extension.  Both loops only fill the collection that is returned at the end, so that a
  collection is returned exactly when no entry fails a test.  \<open>localeGroup\<close> is the group of one
  locale directory: it is made at the first file, so an empty directory has none.  The entries
  of a locale directory are those that the tree holds for it.  A directory that is not in the
  tree has no collection; discovery only asks for directories it has walked through.
\<close>

definition isFtlName :: "string \<Rightarrow> bool" where
  "isFtlName n = endsWith (toUpperCase n) ''.FTL''"

definition isFtlFile :: "Dirent \<Rightarrow> bool" where
  "isFtlFile e = (case e of File n \<Rightarrow> isFtlName n | _ \<Rightarrow> False)"

definition localeGroup :: "string \<Rightarrow> string list \<Rightarrow> Dirent \<Rightarrow> (string \<times> FileGroup) list" where
  "localeGroup basePath curPath e =
     (case e of
        Directory loc ftlEntries \<Rightarrow>
          if ftlEntries = [] then []
          else [(loc,
                 \<lparr>group_locale = loc,
                  files = fold (\<lambda>f fs. AList.update (uri (path f)) f fs)
                            (map (\<lambda>entry. createFileRecord (curPath @ [loc, dirent_name entry]) basePath None)
                               ftlEntries)
                            []\<rparr>)]
      | _ \<Rightarrow> [])"

definition getCollection :: "Dirent list \<Rightarrow> string \<Rightarrow> string list \<Rightarrow> FileCollection option" where
  "getCollection root basePath curPath =
     (case lookupDir root curPath of
        None \<Rightarrow> None
      | Some entries \<Rightarrow>
          if \<not> list_all isDirectory entries then None
          else if \<not> list_all (\<lambda>e. case e of Directory loc ftlEntries \<Rightarrow> list_all isFtlFile ftlEntries
                                          | _ \<Rightarrow> True) entries
          then None
          else Some \<lparr>collection_path = getPathInfo curPath basePath None,
                     groups = fold (\<lambda>(k, g) gs. AList.update k g gs)
                                (concat (map (localeGroup basePath curPath) entries)) []\<rparr>)"

text \<open>
  \<^verbatim>\<open>discoverInternal\<close>.  \<open>discoverFile\<close> is the body of the first loop for one entry of the
  directory \<open>curPath\<close>, and \<open>collectionUris\<close> are the keys that its last lines add to the set of
  URIs.  \<open>discoverInternal root basePath curPath entries ctx\<close> is the call for the directory
  \<open>curPath\<close>, whose entries are \<open>entries\<close>; \<open>discoverSubdirs\<close> is the second loop, which goes
  through the directories among the entries in their order.
\<close>

definition collectionUris :: "FileCollection \<Rightarrow> string list" where
  "collectionUris c = concat (map (\<lambda>(k, g). map fst (files g)) (groups c))"

definition discoverFile ::
  "Dirent list \<Rightarrow> string \<Rightarrow> string list \<Rightarrow> Dirent \<Rightarrow> DiscoveryResult \<Rightarrow> DiscoveryResult" where
  "discoverFile root basePath curPath entry ctx =
     (case entry of
        File n \<Rightarrow>
          if \<not> isFtlName n then ctx
          else
            (let u = pathToFileURL (absolutePath basePath (curPath @ [n])) in
             if set_has (uris ctx) u then ctx
             else
               (case (if isPathInside (dirname (Some curPath))
                      then getCollection root basePath (butlast curPath)
                      else None) of
                  None \<Rightarrow>
                    ctx\<lparr>uris := set_add u (uris ctx),
                        ungrouped := (ungrouped ctx)\<lparr>files :=
                          AList.update u (createFileRecord (curPath @ [n]) basePath (Some u))
                            (files (ungrouped ctx))\<rparr>\<rparr>
                | Some c \<Rightarrow>
                    ctx\<lparr>uris := fold set_add (collectionUris c) (uris ctx),
                        collections := collections ctx @ [c]\<rparr>))
      | _ \<Rightarrow> ctx)"

fun discoverInternal ::
    "Dirent list \<Rightarrow> string \<Rightarrow> string list \<Rightarrow> Dirent list \<Rightarrow> DiscoveryResult \<Rightarrow> DiscoveryResult"
  and discoverSubdirs ::
    "Dirent list \<Rightarrow> string \<Rightarrow> string list \<Rightarrow> Dirent list \<Rightarrow> DiscoveryResult \<Rightarrow> DiscoveryResult"
where
  "discoverInternal root basePath curPath entries ctx =
     discoverSubdirs root basePath curPath entries
       (fold (discoverFile root basePath curPath) entries ctx)"
| "discoverSubdirs root basePath curPath [] ctx = ctx"
| "discoverSubdirs root basePath curPath (Directory n es # rest) ctx =
     discoverSubdirs root basePath curPath rest
       (if startsWith n ''.'' then ctx else discoverInternal root basePath (curPath @ [n]) es ctx)"
| "discoverSubdirs root basePath curPath (File n # rest) ctx =
     discoverSubdirs root basePath curPath rest ctx"
| "discoverSubdirs root basePath curPath (Other n # rest) ctx =
     discoverSubdirs root basePath curPath rest ctx"

definition discover :: "Dirent list \<Rightarrow> string \<Rightarrow> DiscoveryResult" where
  "discover root basePath =
     discoverInternal root basePath [] root
       \<lparr>collections = [], ungrouped = \<lparr>group_locale = [], files = []\<rparr>, uris = []\<rparr>"

section \<open>The claims in the spec's words\<close>

text \<open>
  The variable references of a node, as the spec counts them: the identifiers of the
  variable references anywhere in the tree below the node.
\<close>

fun variableReferences :: "ASTNode \<Rightarrow> string set" where
  "variableReferences (VariableReference n) = {n}"
| "variableReferences (Placeable e) = variableReferences e"
| "variableReferences (FunctionReference f positional named) =
     (\<Union>e \<in> set positional. variableReferences e) \<union> (\<Union>e \<in> set named. variableReferences e)"
| "variableReferences (SelectExpression selector variants) =
     variableReferences selector \<union> (\<Union>v \<in> set variants. variableReferences v)"
| "variableReferences (Variant k els d) = (\<Union>e \<in> set els. variableReferences e)"
| "variableReferences (NamedArgument k v) = variableReferences v"
| "variableReferences (TermReference t a args) =
     (case args of
        None \<Rightarrow> {}
      | Some (positional, named) \<Rightarrow>
          (\<Union>e \<in> set positional. variableReferences e) \<union> (\<Union>e \<in> set named. variableReferences e))"
| "variableReferences (TextElement t) = {}"
| "variableReferences (StringLiteral t) = {}"
| "variableReferences (NumberLiteral t) = {}"
| "variableReferences (MessageReference m a) = {}"

definition patternVariableReferences :: "Pattern \<Rightarrow> string set" where
  "patternVariableReferences p = (\<Union>e \<in> set (elements p). variableReferences e)"

text \<open>
  The occurrences of an identifier after its first: \<open>laterOccurrences seen ms\<close> lists, in order,
  the entries of \<open>ms\<close> whose identifier is in \<open>seen\<close> or belongs to an earlier entry of \<open>ms\<close>.
  \<open>duplicateWarning file kind m\<close> is the warning \<^verbatim>\<open>duplicate\<close> for the entry \<open>m\<close> of \<open>file\<close>, placed
  on the span of its identifier; \<open>suppresses an m c\<close> says that the entry \<open>m\<close> ignores the code
  \<open>c\<close> (by its flag, its own set or the analyzer's list).  A diagnostic is a \<open>termDuplicate\<close>
  when it is a \<^verbatim>\<open>duplicate\<close> whose message reads \<^verbatim>\<open>Duplicate term ...\<close>.
\<close>

fun laterOccurrences :: "string list \<Rightarrow> MessageInfo list \<Rightarrow> MessageInfo list" where
  "laterOccurrences seen [] = []"
| "laterOccurrences seen (m # ms) =
     (if ident m \<in> set seen then [m] else []) @ laterOccurrences (ident m # seen) ms"

definition duplicateWarning :: "FileInfo \<Rightarrow> string \<Rightarrow> MessageInfo \<Rightarrow> DiagnosticInfo" where
  "duplicateWarning file kind m =
     diagnosticOf Warning file (createWarning Duplicate (idSpan m) [kind, name m])"

definition suppresses :: "Analyzer \<Rightarrow> MessageInfo \<Rightarrow> string \<Rightarrow> bool" where
  "suppresses an m c = (isTrue (ignoreAll m) \<or> shouldIgnore an c [ignore m])"

definition termDuplicate :: "DiagnosticInfo \<Rightarrow> bool" where
  "termDuplicate d = (code d = ''duplicate'' \<and> startsWith (message d) ''Duplicate term'')"

text \<open>
  The diagnostics of a file after a read that starts from an empty store.
\<close>

definition freshDiagnostics :: "Runtime \<Rightarrow> Analyzer \<Rightarrow> FileInfo \<Rightarrow> DiagnosticInfo list" where
  "freshDiagnostics rt an file =
     (case read rt (an\<lparr>diagnostics := []\<rparr>) file of
        Inr (an', file') \<Rightarrow> getDiagnosticsForUri an' (uri (path file))
      | Inl e \<Rightarrow> [])"

text \<open>
  Discovery.  A tree is a \<open>snapshot\<close> of a file system when no name holds the separator and
  no directory holds a name twice.  The resource files reachable under a directory are those
  with the extension in it and in the directories below it whose names do not start with a dot.
  \<open>fileUri\<close> is the URI of the file at a path.  \<open>collectionOf root basePath p\<close> is the collection
  of the file at \<open>p\<close>: the one made of the directory two levels above it, when that one lies
  inside the base directory and has the shape of a collection.  \<open>placedUris r\<close> lists the places
  of a result: the keys of the ungrouped group, then those of every group of every collection.
\<close>

definition validName :: "string \<Rightarrow> bool" where
  "validName n = (CHR ''/'' \<notin> set n)"

fun wellFormed :: "Dirent \<Rightarrow> bool" where
  "wellFormed (File n) = validName n"
| "wellFormed (Directory n es) =
     (validName n \<and> distinct (map dirent_name es) \<and> list_all wellFormed es)"
| "wellFormed (Other n) = validName n"

definition snapshot :: "Dirent list \<Rightarrow> bool" where
  "snapshot root = (distinct (map dirent_name root) \<and> list_all wellFormed root)"

fun reachableFiles :: "string list \<Rightarrow> Dirent list \<Rightarrow> string list list" where
  "reachableFiles cur [] = []"
| "reachableFiles cur (File n # rest) =
     (if isFtlName n then [cur @ [n]] else []) @ reachableFiles cur rest"
| "reachableFiles cur (Directory n es # rest) =
     (if startsWith n ''.'' then [] else reachableFiles (cur @ [n]) es) @ reachableFiles cur rest"
| "reachableFiles cur (Other n # rest) = reachableFiles cur rest"

definition fileUri :: "string \<Rightarrow> string list \<Rightarrow> string" where
  "fileUri basePath p = pathToFileURL (absolutePath basePath p)"

definition collectionOf :: "Dirent list \<Rightarrow> string \<Rightarrow> string list \<Rightarrow> FileCollection option" where
  "collectionOf root basePath p =
     (if isPathInside (dirname (Some (butlast p))) then getCollection root basePath (butlast (butlast p))
      else None)"

definition placedUris :: "DiscoveryResult \<Rightarrow> string list" where
  "placedUris r = map fst (files (ungrouped r)) @ concat (map collectionUris (collections r))"

section \<open>What a step adds to the store\<close>

text \<open>
  \<open>extends P u an an'\<close>: the analyzer \<open>an'\<close> differs from \<open>an\<close> at most in the list of
  diagnostics of the URI \<open>u\<close>, which has grown at its end by diagnostics that satisfy \<open>P\<close>.
  \<open>okFor file P\<close>: \<open>P\<close> holds of every warning for \<open>file\<close> whose code is not \<^verbatim>\<open>duplicate\<close>.
\<close>

definition extends :: "(DiagnosticInfo \<Rightarrow> bool) \<Rightarrow> string \<Rightarrow> Analyzer \<Rightarrow> Analyzer \<Rightarrow> bool" where
  "extends P u an an' =
     (sourceLocale an' = sourceLocale an \<and> analyzer_ignore an' = analyzer_ignore an
      \<and> useRelativePaths an' = useRelativePaths an
      \<and> (\<forall>v. v \<noteq> u \<longrightarrow> getDiagnosticsForUri an' v = getDiagnosticsForUri an v)
      \<and> (\<exists>new. getDiagnosticsForUri an' u = getDiagnosticsForUri an u @ new \<and> list_all P new))"

definition okFor :: "FileInfo \<Rightarrow> (DiagnosticInfo \<Rightarrow> bool) \<Rightarrow> bool" where
  "okFor file P = (\<forall>c span args. c \<noteq> Duplicate \<longrightarrow> P (diagnosticOf Warning file (createWarning c span args)))"

text \<open>Two analyzers \<open>agree\<close> at a URI when they hold the same diagnostics for it.\<close>

definition agree :: "string \<Rightarrow> Analyzer \<Rightarrow> Analyzer \<Rightarrow> bool" where
  "agree u a b = (getDiagnosticsForUri a u = getDiagnosticsForUri b u)"

section \<open>What the walk keeps\<close>

text \<open>
  \<open>collectionPaths G ges\<close>: the paths of the entries of the directories among \<open>ges\<close>, the
  entries of the directory \<open>G\<close>.  \<open>visited root cur listing\<close>: the directory \<open>cur\<close> of the tree
  has the entries \<open>listing\<close>, and what is reachable under it is reachable under the base
  directory.  \<open>placement root basePath ctx\<close>: no URI has two places in \<open>ctx\<close>, the claimed URIs
  are the placed ones, every collection is that of a reachable file, and every ungrouped file
  is a reachable file without a collection.
\<close>

definition collectionPaths :: "string list \<Rightarrow> Dirent list \<Rightarrow> string list list" where
  "collectionPaths G ges =
     concat (map (\<lambda>e. case e of Directory l fs \<Rightarrow> map (\<lambda>f. G @ [l, dirent_name f]) fs | _ \<Rightarrow> []) ges)"

definition visited :: "Dirent list \<Rightarrow> string list \<Rightarrow> Dirent list \<Rightarrow> bool" where
  "visited root cur listing =
     (lookupDir root cur = Some listing
      \<and> set (reachableFiles cur listing) \<subseteq> set (reachableFiles [] root))"

definition placement :: "Dirent list \<Rightarrow> string \<Rightarrow> DiscoveryResult \<Rightarrow> bool" where
  "placement root basePath ctx =
     (distinct (placedUris ctx) \<and> set (uris ctx) = set (placedUris ctx)
      \<and> (\<forall>c\<in>set (collections ctx).
            \<exists>p\<in>set (reachableFiles [] root). collectionOf root basePath p = Some c)
      \<and> (\<forall>u\<in>set (map fst (files (ungrouped ctx))).
            \<exists>p\<in>set (reachableFiles [] root).
              u = fileUri basePath p \<and> collectionOf root basePath p = None))"

section \<open>Concrete inputs\<close>

text \<open>
  The pattern of \<^verbatim>\<open>{ $n -> [one] { $x } *[other] y }\<close>: a select expression on \<^verbatim>\<open>$n\<close> whose first
  variant refers to \<^verbatim>\<open>$x\<close>.
\<close>

definition ex_select :: Pattern where
  "ex_select =
     Pattern [Placeable (SelectExpression (VariableReference ''n'')
       [Variant (KeyIdentifier ''one'') [Placeable (VariableReference ''x'')] False,
        Variant (KeyIdentifier ''other'') [TextElement ''y''] True])]"

text \<open>An analyzer for the source locale \<^verbatim>\<open>en\<close> with nothing ignored and nothing reported.\<close>

definition ex_analyzer :: Analyzer where
  "ex_analyzer =
     \<lparr>sourceLocale = ''en'', diagnostics = [], analyzer_ignore = [], useRelativePaths = False\<rparr>"

text \<open>
  The file \<open>n\<close>\<^verbatim>\<open>.ftl\<close> of the locale \<open>loc\<close> below \<^verbatim>\<open>/base/strings\<close>, not yet read; \<open>ex_file loc\<close> is
  \<^verbatim>\<open>a.ftl\<close> there.
\<close>

definition ex_file_named :: "string \<Rightarrow> string \<Rightarrow> FileInfo" where
  "ex_file_named loc n =
     \<lparr>file_name = n,
      path = \<lparr>uri = ''file:///base/strings/'' @ loc @ ''/'' @ n @ ''.ftl'',
               absolute = ''/base/strings/'' @ loc @ ''/'' @ n @ ''.ftl'',
               relative = ''strings/'' @ loc @ ''/'' @ n @ ''.ftl''\<rparr>,
      content = [], terms = [], messages = [],
      file_bundle = None, file_ignore = None, hash = None\<rparr>"

definition ex_file :: "string \<Rightarrow> FileInfo" where
  "ex_file loc = ex_file_named loc ''a''"

text \<open>A message \<^verbatim>\<open>msg\<close> with the given value, and an attribute \<^verbatim>\<open>.label = OK\<close> of it.\<close>

definition ex_message :: "Pattern option \<Rightarrow> MessageInfo" where
  "ex_message v =
     \<lparr>ident = ''msg'', name = ''msg'', val = v, idSpan = \<lparr>span_start = 0, span_end = 3\<rparr>,
      translate = Required, expectIdentical = None, params = [], variables = [],
      isTerm = False, comment = None, attributes = [], ignoreAll = None, ignore = []\<rparr>"

definition ex_label :: AttributeInfo where
  "ex_label =
     \<lparr>ident = ''label'', name = ''msg.label'', val = Some (Pattern [TextElement ''OK'']),
      idSpan = \<lparr>span_start = 14, span_end = 19\<rparr>,
      translate = Required, expectIdentical = None, params = [], variables = []\<rparr>"

text \<open>
  A runtime for the examples: the files and their parsed items are given as tables, the hash
  is the length, no parameter annotation matches, and paths are joined with a slash.
\<close>

definition ex_runtime :: "(string \<times> string) list \<Rightarrow> (string \<times> Entry list) list \<Rightarrow> Runtime" where
  "ex_runtime texts parses =
     \<lparr>readFile = map_of texts,
      parse = (\<lambda>text. case map_of parses text of Some es \<Rightarrow> es | None \<Rightarrow> []),
      murmurhash_v3 = length,
      matchParam = (\<lambda>v. None),
      matchParamAttr = (\<lambda>v. None),
      path_dirname = (\<lambda>p. rev (drop 1 (dropWhile (\<lambda>c. c \<noteq> CHR ''/'') (rev p)))),
      path_join = joinWith ''/''\<rparr>"

definition ex_hi :: MessageInfo where
  "ex_hi = ex_message (Some (Pattern [TextElement ''Hi'']))"

definition ex_hi2 :: MessageInfo where
  "ex_hi2 = ex_hi\<lparr>idSpan := \<lparr>span_start = 9, span_end = 12\<rparr>\<rparr>"

definition ex_dup_file :: "string \<Rightarrow> MessageInfo list \<Rightarrow> FileInfo" where
  "ex_dup_file loc ms =
     (ex_file loc)\<lparr>content := ''msg = Hi'' @ [CHR 0x0A] @ ''msg = Hi'' @ [CHR 0x0A], messages := ms\<rparr>"

definition ex_term :: "string \<Rightarrow> TermInfo" where
  "ex_term n =
     \<lparr>ident = n, name = ''-'' @ n, val = Some (Pattern [TextElement ''Hi'']),
      idSpan = \<lparr>span_start = 0, span_end = 1 + int (length n)\<rparr>,
      translate = Required, expectIdentical = None, params = [], variables = [],
      isTerm = True, comment = None, attributes = [], ignoreAll = None, ignore = []\<rparr>"

text \<open>
  A group of a locale with the named files, a collection of groups, and the parsed message
  \<^verbatim>\<open>msg = Hi\<close> at an offset.  \<open>ex_text_twice\<close> has that message twice; \<open>ex_text_annotated w\<close> has
  it below the resource comment \<^verbatim>\<open>@diagnostic\<close> \<open>w\<close> \<^verbatim>\<open>missing-file\<close>.  \<open>ex_runtime_missing w\<close> serves
  a source locale \<^verbatim>\<open>en\<close> with the annotated \<^verbatim>\<open>a.ftl\<close> and with \<^verbatim>\<open>b.ftl\<close>, and a locale \<^verbatim>\<open>fr\<close> with
  \<^verbatim>\<open>b.ftl\<close> only; \<open>ex_runtime_twice\<close> serves \<^verbatim>\<open>fr/a.ftl\<close> with the message twice.
\<close>

definition ex_group :: "string \<Rightarrow> string list \<Rightarrow> string \<times> FileGroup" where
  "ex_group loc ns =
     (loc, \<lparr>group_locale = loc,
            files = map (\<lambda>n. (uri (path (ex_file_named loc n)), ex_file_named loc n)) ns\<rparr>)"

definition ex_collection :: "(string \<times> FileGroup) list \<Rightarrow> FileCollection" where
  "ex_collection gs =
     \<lparr>collection_path = \<lparr>uri = ''file:///base/strings'', absolute = ''/base/strings'',
                          relative = ''strings''\<rparr>,
      groups = gs\<rparr>"

definition ex_parsed_msg :: "int \<Rightarrow> Entry" where
  "ex_parsed_msg start =
     Message \<lparr>entry_id_name = ''msg'', entry_id_span = \<lparr>span_start = start, span_end = start + 3\<rparr>,
              entry_value = Some (Pattern [TextElement ''Hi'']), entry_attributes = [],
              entry_comment = None\<rparr>"

definition ex_text_twice :: string where
  "ex_text_twice = ''msg = Hi'' @ [CHR 0x0A] @ ''msg = Hi'' @ [CHR 0x0A]"

definition ex_text_annotated :: "string \<Rightarrow> string" where
  "ex_text_annotated w = ''### @diagnostic '' @ w @ '' missing-file'' @ [CHR 0x0A] @ ''msg = Hi'' @ [CHR 0x0A]"

definition ex_runtime_missing :: "string \<Rightarrow> Runtime" where
  "ex_runtime_missing w =
     ex_runtime
       [(''file:///base/strings/en/a.ftl'', ex_text_annotated w),
        (''file:///base/strings/en/b.ftl'', ''msg = Hi''),
        (''file:///base/strings/fr/b.ftl'', ''msg = Hi'')]
       [(ex_text_annotated w,
           [ResourceComment (''@diagnostic '' @ w @ '' missing-file''), ex_parsed_msg 37]),
        (''msg = Hi'', [ex_parsed_msg 0])]"

definition ex_junk :: Entry where
  "ex_junk = Junk [\<lparr>report_code = ''E0003'', report_message = ''Expected token: \"=\"'',
                    report_span = \<lparr>span_start = 3, span_end = 3\<rparr>\<rparr>]"

definition ex_old_diagnostic :: DiagnosticInfo where
  "ex_old_diagnostic = diagnosticOf Warning (ex_file ''en'') (createWarning Duplicate \<lparr>span_start = 0, span_end = 3\<rparr> [''message'', ''msg''])"

definition ex_runtime_twice :: Runtime where
  "ex_runtime_twice =
     ex_runtime [(''file:///base/strings/fr/a.ftl'', ex_text_twice)]
       [(ex_text_twice, [ex_parsed_msg 0, ex_parsed_msg 9])]"

text \<open>
  A base directory with a loose file, the collection \<^verbatim>\<open>strings\<close> with two locales, a
  directory whose name starts with a dot, the directory \<^verbatim>\<open>misc\<close> that a text file keeps from
  being a collection, and a locale directory right below the base directory.
\<close>

definition ex_tree :: "Dirent list" where
  "ex_tree =
     [File ''loose.ftl'',
      Directory ''strings''
        [Directory ''en'' [File ''greet.ftl'', File ''menu.FTL''],
         Directory ''fr'' [File ''greet.ftl'']],
      Directory ''.git'' [File ''x.ftl''],
      Directory ''misc'' [Directory ''en'' [File ''a.ftl'', File ''notes.txt'']],
      Directory ''en'' [File ''top.ftl'']]"

section \<open>Properties\<close>

text \<open>
  Claim C8.  The pattern equality predicate is reflexive and symmetric; two \<^verbatim>\<open>undefined\<close>
  patterns are equal; \<^verbatim>\<open>undefined\<close> never equals a present pattern.
\<close>

theorem patternsEqual_refl_sym:
  "patternsEqual p p
   \<and> patternsEqual p q = patternsEqual q p
   \<and> patternsEqual Undefined Undefined
   \<and> \<not> patternsEqual Undefined (Present r)"
  by (cases p; cases q) (auto simp: equals_def)

text \<open>
  Claim C4 (the code departs from it).  On the pattern \<^verbatim>\<open>{ $n -> [one] { $x } *[other] y }\<close>
  the walk returns \<^verbatim>\<open>n\<close> alone, although \<^verbatim>\<open>x\<close> is referred to in a variant: the variants are
  pushed on the stack and dropped when popped, since the \<^verbatim>\<open>switch\<close> has no case for them.
\<close>

theorem collectVariables_drops_variants:
  "collectVariables (Present ex_select) = [''n'']
   \<and> patternVariableReferences ex_select = {''n'', ''x''}"
  by (auto simp: ex_select_def set_add_def patternVariableReferences_def)

text \<open>
  Claim C3 (the code departs from it).  The target file \<^verbatim>\<open>fr/a.ftl\<close> has the message \<^verbatim>\<open>msg\<close>
  with the attribute \<^verbatim>\<open>label\<close>, both as in the source file, which has a second message
  \<^verbatim>\<open>other\<close>.  The message has its \<^verbatim>\<open>ignoreAll\<close> flag set and \<^verbatim>\<open>identical\<close> in its own ignore set,
  and the analyzer ignores \<^verbatim>\<open>identical\<close> and \<^verbatim>\<open>missing\<close>.  The warning \<^verbatim>\<open>identical\<close> for the message
  is dropped, but the one for its attribute is recorded, and so is \<^verbatim>\<open>missing-message\<close> for the
  other message: a warning for an attribute passes no ignore check in \<^verbatim>\<open>addEntryWarning\<close>, and
  \<^verbatim>\<open>addMissingMessageWarning\<close> does not call \<^verbatim>\<open>shouldIgnore\<close>.
\<close>

theorem attribute_and_missing_message_not_suppressed:
  "(case compareFiles (ex_runtime [] [])
           (ex_analyzer\<lparr>analyzer_ignore := [''identical'', ''missing'']\<rparr>)
           (Own ((ex_file ''fr'')\<lparr>messages :=
              [ex_hi\<lparr>ignoreAll := Some True, ignore := [''identical''],
                     attributes := [(''label'', ex_label)]\<rparr>]\<rparr>))
           ((ex_file ''en'')\<lparr>messages :=
              [ex_hi\<lparr>attributes := [(''label'', ex_label)]\<rparr>,
               ex_hi\<lparr>ident := ''other'', name := ''other''\<rparr>]\<rparr>) ''fr'' of
      Inr an \<Rightarrow> map message (getDiagnosticsForUri an ''file:///base/strings/fr/a.ftl'')
    | Inl e \<Rightarrow> []) =
   [''Attribute \"msg.label\" is identical to the source locale attribute'',
    ''Message \"other\" is missing'']"
  by code_simp

text \<open>
  Where a warning is attached to a message or a term, the resolution is the one of the claim:
  the warning is dropped exactly when the entry's \<^verbatim>\<open>ignoreAll\<close> flag is set, or the entry's own
  ignore set or the analyzer's ignore list holds the code or its category; it is recorded
  otherwise.  The category of a code is the code itself for \<^verbatim>\<open>do-not-translate\<close> and else what
  stands before its first dash.  For \<^verbatim>\<open>shouldIgnore\<close>, a set holding \<^verbatim>\<open>missing-message\<close> or
  \<^verbatim>\<open>missing\<close> matches \<^verbatim>\<open>missing-message\<close>, and one holding only \<^verbatim>\<open>message\<close> does not.
\<close>

theorem addEntryWarning_message_ignore:
  "addEntryWarning an file (MessageEntry m) c args =
     (if isTrue (ignoreAll m)
         \<or> set_has (ignore m) (codeName c)
         \<or> set_has (ignore m) (getWarningCategory (codeName c))
         \<or> set_has (analyzer_ignore an) (codeName c)
         \<or> set_has (analyzer_ignore an) (getWarningCategory (codeName c))
      then an
      else addDiagnostic an Warning file (createWarning c (idSpan m) args))
   \<and> getWarningCategory k =
       (if k = ''do-not-translate'' then k else takeWhile (\<lambda>x. x \<noteq> CHR ''-'') k)
   \<and> shouldIgnore an ''missing-message'' [[''missing-message'']]
   \<and> shouldIgnore an ''missing-message'' [[''missing'']]
   \<and> shouldIgnore an ''missing-message'' [[''message'']] =
       (set_has (analyzer_ignore an) ''missing-message'' \<or> set_has (analyzer_ignore an) ''missing'')"
proof -
  have a: "take (length (takeWhile (\<lambda>x. x \<noteq> CHR ''-'') k)) k = takeWhile (\<lambda>x. x \<noteq> CHR ''-'') k"
    for k :: string
    using takeWhile_eq_take [of "\<lambda>x. x \<noteq> CHR ''-''" k] by simp
  have b: "CHR ''-'' \<notin> set k \<Longrightarrow> takeWhile (\<lambda>x. x \<noteq> CHR ''-'') k = k" for k :: string
    by (induction k) auto
  have cat: "getWarningCategory k =
      (if k = ''do-not-translate'' then k else takeWhile (\<lambda>x. x \<noteq> CHR ''-'') k)" for k
    by (simp add: getWarningCategory_def indexOf_def slice_def Let_def a b)
  have mm: "getWarningCategory ''missing-message'' = ''missing''"
    by (simp add: cat)
  have t1: "addEntryWarning an file (MessageEntry m) c args =
     (if isTrue (ignoreAll m)
         \<or> set_has (ignore m) (codeName c)
         \<or> set_has (ignore m) (getWarningCategory (codeName c))
         \<or> set_has (analyzer_ignore an) (codeName c)
         \<or> set_has (analyzer_ignore an) (getWarningCategory (codeName c))
      then an
      else addDiagnostic an Warning file (createWarning c (idSpan m) args))"
    by (auto simp: addEntryWarning_def shouldIgnore_def)
  have t2: "shouldIgnore an ''missing-message'' [[''missing-message'']]
     \<and> shouldIgnore an ''missing-message'' [[''missing'']]
     \<and> shouldIgnore an ''missing-message'' [[''message'']] =
       (set_has (analyzer_ignore an) ''missing-message'' \<or> set_has (analyzer_ignore an) ''missing'')"
    by (simp add: shouldIgnore_def mm set_has_def)
  show ?thesis
    using t1 t2 cat [of k] by blast
qed

text \<open>
  Claim C2, as amended.  In the comparison of a message with its source message, with the two
  patterns equal when they are the same tree or both absent, and identity expected when either
  side carries the flag: the warning \<^verbatim>\<open>identical\<close> goes to the message when the patterns are equal,
  identity is not expected and the target has a value; the warning \<^verbatim>\<open>mismatch-identical\<close> goes to
  it when the patterns differ and identity is expected, with or without a value of the target;
  nothing is reported otherwise.  (Both pass through \<open>addEntryWarning\<close>, which applies the
  message's ignore settings.)
\<close>

theorem compareMessageValues_cases:
  "compareMessageValues an file m srcMessage =
     (if val m = val srcMessage
         \<and> \<not> (isTrue (expectIdentical m) \<or> isTrue (expectIdentical srcMessage))
         \<and> val m \<noteq> None
      then addEntryWarning an file (MessageEntry m) Identical [''Message'', name m]
      else if val m \<noteq> val srcMessage
         \<and> (isTrue (expectIdentical m) \<or> isTrue (expectIdentical srcMessage))
      then addEntryWarning an file (MessageEntry m) MismatchIdentical [''Message'', name m]
      else an)"
proof -
  have "patternsEqual (of_option a) (of_option b) = (a = b)" for a b
    by (cases a; cases b) (auto simp: equals_def)
  then show ?thesis
    by (auto simp: compareMessageValues_def expectEq_def Let_def)
qed

theorem compareMessageValues_cases_witness:
  "compareMessageValues ex_analyzer (ex_file ''fr'')
       ((ex_message None)\<lparr>expectIdentical := Some True\<rparr>)
       (ex_message (Some (Pattern [TextElement ''Hi'']))) =
     addEntryWarning ex_analyzer (ex_file ''fr'')
       (MessageEntry ((ex_message None)\<lparr>expectIdentical := Some True\<rparr>))
       MismatchIdentical [''Message'', ''msg'']"
  using compareMessageValues_cases [of ex_analyzer "ex_file ''fr''"
      "(ex_message None)\<lparr>expectIdentical := Some True\<rparr>"
      "ex_message (Some (Pattern [TextElement ''Hi'']))"]
  by (simp add: ex_message_def)

text \<open>
  Claim C2 as stated fails: a target message with no value that is flagged
  \<^verbatim>\<open>@expect-identical\<close>, against a source message with a value, gets \<^verbatim>\<open>mismatch-identical\<close>.
\<close>

theorem mismatch_identical_without_value:
  "val ((ex_message None)\<lparr>expectIdentical := Some True\<rparr>) = None
   \<and> (case compareMessages ex_analyzer (ex_file ''fr'')
              ((ex_message None)\<lparr>expectIdentical := Some True\<rparr>)
              (ex_message (Some (Pattern [TextElement ''Hi'']))) of
         Inr an \<Rightarrow> map code (getDiagnosticsForUri an ''file:///base/strings/fr/a.ftl'')
       | Inl e \<Rightarrow> []) = [''mismatch-identical'']"
  by code_simp

subsection \<open>The diagnostics a step appends\<close>

lemma getDiagnosticsForUri_addDiagnostic:
  "getDiagnosticsForUri (addDiagnostic an sev file r) v =
     (if v = uri (path file) then getDiagnosticsForUri an v @ [diagnosticOf sev file r]
      else getDiagnosticsForUri an v)"
  by (simp add: getDiagnosticsForUri_def addDiagnostic_def Let_def update_conv')

lemma addDiagnostic_config:
  "sourceLocale (addDiagnostic an sev file r) = sourceLocale an"
  "analyzer_ignore (addDiagnostic an sev file r) = analyzer_ignore an"
  "useRelativePaths (addDiagnostic an sev file r) = useRelativePaths an"
  by (simp_all add: addDiagnostic_def Let_def)

lemma extends_refl: "extends P u an an"
  by (simp add: extends_def)

lemma extends_trans: "extends P u a b \<Longrightarrow> extends P u b c \<Longrightarrow> extends P u a c"
proof -
  assume ab: "extends P u a b" and bc: "extends P u b c"
  from ab obtain n1 where n1: "getDiagnosticsForUri b u = getDiagnosticsForUri a u @ n1" "list_all P n1"
    unfolding extends_def by blast
  from bc obtain n2 where n2: "getDiagnosticsForUri c u = getDiagnosticsForUri b u @ n2" "list_all P n2"
    unfolding extends_def by blast
  have "getDiagnosticsForUri c u = getDiagnosticsForUri a u @ (n1 @ n2)" "list_all P (n1 @ n2)"
    using n1 n2 by simp_all
  then have "\<exists>new. getDiagnosticsForUri c u = getDiagnosticsForUri a u @ new \<and> list_all P new"
    by blast
  then show ?thesis
    using ab bc unfolding extends_def by simp
qed

lemma extends_mono: "extends P u a b \<Longrightarrow> (\<And>d. P d \<Longrightarrow> Q d) \<Longrightarrow> extends Q u a b"
  unfolding extends_def by (metis (mono_tags, lifting) list.pred_mono_strong)

lemma extends_addDiagnostic:
  "uri (path file) = u \<Longrightarrow> P (diagnosticOf sev file r) \<Longrightarrow> extends P u an (addDiagnostic an sev file r)"
  by (simp add: extends_def getDiagnosticsForUri_addDiagnostic addDiagnostic_config)

lemma extends_addEntryWarning:
  "uri (path file) = u \<Longrightarrow> P (diagnosticOf Warning file (createWarning c (entry_idSpan entry) args))
     \<Longrightarrow> extends P u an (addEntryWarning an file entry c args)"
  by (cases entry) (auto simp: addEntryWarning_def extends_refl intro: extends_addDiagnostic)

lemma extends_fold:
  "(\<And>x a. x \<in> set xs \<Longrightarrow> extends P u a (f x a)) \<Longrightarrow> extends P u an (fold f xs an)"
  by (induction xs arbitrary: an) (auto intro: extends_refl extends_trans)

lemma extends_fold_snd:
  "(\<And>x r a. x \<in> set xs \<Longrightarrow> extends P u a (snd (f x (r, a))))
     \<Longrightarrow> extends P u an (snd (fold f xs (r0, an)))"
proof (induction xs arbitrary: r0 an)
  case Nil
  then show ?case by (simp add: extends_refl)
next
  case (Cons x xs)
  obtain r1 a1 where s: "f x (r0, an) = (r1, a1)" by (cases "f x (r0, an)")
  have "extends P u an a1" using Cons.prems [where x = x and r = r0 and a = an] s by simp
  moreover have "extends P u a1 (snd (fold f xs (r1, a1)))"
    using Cons.IH Cons.prems by simp
  ultimately show ?case using s by (auto intro: extends_trans)
qed

lemma extends_foldE:
  "(\<And>x a a'. x \<in> set xs \<Longrightarrow> f x a = Inr a' \<Longrightarrow> extends P u a a')
     \<Longrightarrow> foldE f xs an = Inr an' \<Longrightarrow> extends P u an an'"
proof (induction xs arbitrary: an)
  case Nil
  then show ?case by (simp add: extends_refl)
next
  case (Cons x xs)
  then obtain a1 where s: "f x an = Inr a1" "foldE f xs a1 = Inr an'"
    by (cases "f x an") auto
  then show ?case using Cons by (meson extends_trans list.set_intros)
qed


lemma extends_warn:
  "okFor file P \<Longrightarrow> c \<noteq> Duplicate \<Longrightarrow> extends P (uri (path file)) an (addEntryWarning an file entry c args)"
  by (rule extends_addEntryWarning) (auto simp: okFor_def)

lemma extends_checkParams:
  assumes ok: "okFor file P" and r: "checkParams an file entry srcEntry isSrc isAttr = Inr an'"
  shows "extends P (uri (path file)) an an'"
proof -
  let ?u = "uri (path file)"
  note w = extends_warn [OF ok]
  from r have ni: "srcEntry \<noteq> Inherited"
    by (auto simp: checkParams_def split: if_splits)
  obtain params0 where p0: "params0 = (case srcEntry of
        Own e \<Rightarrow> fold (\<lambda>p r. AList.update (param_id p) p r) (map snd (entry_params e)) []
      | _ \<Rightarrow> [])" by simp
  obtain params1 an1 where
    s1: "fold (overlayParam file entry isAttr) (map snd (entry_params entry)) (params0, an) = (params1, an1)"
    by (cases "fold (overlayParam file entry isAttr) (map snd (entry_params entry)) (params0, an)")
  have e1: "extends P ?u an an1"
    using extends_fold_snd [of "map snd (entry_params entry)" P ?u "overlayParam file entry isAttr" an params0]
    by (simp add: s1 overlayParam_def extends_refl w)
  have e2: "extends P ?u an1 (fold (checkVariable file entry srcEntry isSrc isAttr params1)
                    (entry_variables entry) an1)"
    by (rule extends_fold)
       (auto simp: checkVariable_def Let_def extends_refl w split: property.splits
             intro: extends_trans [OF w w])
  have e3: "extends P ?u (fold (checkVariable file entry srcEntry isSrc isAttr params1)
                    (entry_variables entry) an1) an'"
    using r ni by (auto simp: checkParams_def Let_def s1 p0 [symmetric] checkRequired_def extends_refl w
        intro!: extends_fold)
  show ?thesis
    using e1 e2 e3 by (blast intro: extends_trans)
qed

lemma extends_checkMessageParams:
  assumes ok: "okFor file P" and r: "checkMessageParams an file m srcMessage isSrc = Inr an'"
  shows "extends P (uri (path file)) an an'"
proof -
  from r obtain an1 where
    a: "checkParams an file (MessageEntry m)
          (case srcMessage of None \<Rightarrow> Missing | Some sm \<Rightarrow> Own (MessageEntry sm)) isSrc False = Inr an1"
    and b: "foldE (\<lambda>attr a. checkParams a file (AttributeEntry attr)
                             (map_property AttributeEntry
                                (rec_get (case srcMessage of None \<Rightarrow> [] | Some sm \<Rightarrow> attributes sm) (ident attr)))
                             isSrc True)
                 (map snd (attributes m)) an1 = Inr an'"
    unfolding checkMessageParams_def Let_def
    by (cases "checkParams an file (MessageEntry m)
          (case srcMessage of None \<Rightarrow> Missing | Some sm \<Rightarrow> Own (MessageEntry sm)) isSrc False") auto
  have "extends P (uri (path file)) an1 an'"
    by (rule extends_foldE [OF _ b]) (rule extends_checkParams [OF ok])
  with extends_checkParams [OF ok a] show ?thesis
    by (rule extends_trans)
qed


lemma codeName_duplicate: "(codeName c = ''duplicate'') = (c = Duplicate)"
  by (cases c) simp_all

lemma code_createWarning: "code (diagnosticOf sev file (createWarning c span args)) = codeName c"
  by (simp add: diagnosticOf_def createWarning_def Let_def)

lemma message_duplicate:
  "message (diagnosticOf sev file (createWarning Duplicate span [kind, n])) =
     ''Duplicate '' @ (if kind \<noteq> [] then kind else ''{0}'') @ '' \"'' @ (if n \<noteq> [] then n else ''{1}'') @ ''\"''"
  by (simp add: diagnosticOf_def createWarning_def WARN_ADD_LOWER_def isDigit_def parseInt_def
      digitValue_def)

lemma okFor_notTermDuplicate: "okFor file (\<lambda>d. \<not> termDuplicate d)"
  by (simp add: okFor_def termDuplicate_def code_createWarning codeName_duplicate)

lemma extends_addWarning:
  "okFor file P \<Longrightarrow> c \<noteq> Duplicate \<Longrightarrow> extends P (uri (path file)) an (addWarning an file c span args)"
  unfolding addWarning_def by (rule extends_addDiagnostic) (auto simp: okFor_def)

lemma extends_compareMessageAttribute:
  assumes ok: "okFor file P"
  shows "extends P (uri (path file)) a (snd (compareMessageAttribute file entry sa attr (r, a)))"
proof -
  note w = extends_warn [OF ok]
  show ?thesis
  proof (cases "rec_get sa (ident attr)")
    case Missing
    then show ?thesis by (simp add: compareMessageAttribute_def extends_refl w)
  next
    case (Own x)
    then show ?thesis
      by (auto simp: compareMessageAttribute_def Let_def extends_refl w intro: extends_trans [OF w w])
  next
    case Inherited
    then show ?thesis
      by (auto simp: compareMessageAttribute_def Let_def extends_refl w intro: extends_trans [OF w w])
  qed
qed

lemma extends_compareAttributes:
  assumes ok: "okFor file P" and r: "compareAttributes an file entry srcAttributes = Inr an'"
  shows "extends P (uri (path file)) an an'"
proof (cases "isTerm entry")
  case True
  then show ?thesis
    using r
    by (auto simp: compareAttributes_def compareTermAttribute_def extends_refl extends_warn [OF ok]
        split: option.splits if_splits intro!: extends_fold)
next
  case False
  with r obtain sa where sa: "srcAttributes = Some sa"
    by (cases srcAttributes) (auto simp: compareAttributes_def)
  obtain attrSet an1 where
    s1: "fold (compareMessageAttribute file entry sa) (map snd (attributes entry)) ([], an) = (attrSet, an1)"
    by (cases "fold (compareMessageAttribute file entry sa) (map snd (attributes entry)) ([], an)")
  note w = extends_warn [OF ok]
  have e1: "extends P (uri (path file)) an an1"
    using extends_fold_snd [where xs = "map snd (attributes entry)" and P = P and u = "uri (path file)"
        and f = "compareMessageAttribute file entry sa" and an = an and ?r0.0 = "[]"]
      extends_compareMessageAttribute [OF ok]
    by (simp add: s1)
  have e2: "extends P (uri (path file)) an1 an'"
    using r False
    by (auto simp: compareAttributes_def sa s1 missingAttribute_def extends_refl w intro!: extends_fold)
  show ?thesis using e1 e2 by (rule extends_trans)
qed

lemma extends_compareMessageValues:
  "okFor file P \<Longrightarrow> extends P (uri (path file)) an (compareMessageValues an file m srcMessage)"
  by (auto simp: compareMessageValues_def Let_def extends_refl extends_warn)

lemma extends_compareMessages:
  assumes ok: "okFor file P" and r: "compareMessages an file m srcMessage = Inr an'"
  shows "extends P (uri (path file)) an an'"
proof -
  let ?an1 = "if translate srcMessage = Disallowed
                 then addEntryWarning an file (MessageEntry m) DoNotTranslate [''Message'', name m]
                 else an"
  let ?an2 = "compareMessageValues ?an1 file m srcMessage"
  from r obtain an3 where
    a: "checkMessageParams ?an2 file m (Some srcMessage) False = Inr an3"
    and b: "compareAttributes an3 file m (Some (attributes srcMessage)) = Inr an'"
    unfolding compareMessages_def Let_def
    by (cases "checkMessageParams ?an2 file m (Some srcMessage) False") auto
  have "extends P (uri (path file)) an ?an1"
    by (simp add: extends_refl extends_warn [OF ok])
  moreover have "extends P (uri (path file)) ?an1 ?an2"
    by (rule extends_compareMessageValues [OF ok])
  moreover note extends_checkMessageParams [OF ok a] extends_compareAttributes [OF ok b]
  ultimately show ?thesis
    by (blast intro: extends_trans)
qed

lemma extends_compareTerm:
  assumes ok: "okFor file P" and r: "compareTerm file srcTermById t an = Inr an'"
    and k: "ident t \<notin> set objectPrototypeKeys"
  shows "extends P (uri (path file)) an an'"
  using r k
  by (auto simp: compareTerm_def rec_get_def Let_def extends_refl
      split: property.splits option.splits if_splits
      intro: extends_compareAttributes [OF ok])

lemma extends_indexMessages:
  assumes d: "\<And>m. m \<in> set ms \<Longrightarrow> P (diagnosticOf Warning file (createWarning Duplicate (idSpan m) [''message'', name m]))"
  shows "extends P (uri (path file)) an (snd (fold (indexMessage file) ms (r0, an)))"
  by (rule extends_fold_snd)
     (auto simp: indexMessage_def extends_refl d intro!: extends_addEntryWarning)

lemma extends_compareFiles:
  assumes ok: "okFor file P"
    and d: "\<And>m. m \<in> set (messages file) \<Longrightarrow>
              P (diagnosticOf Warning file (createWarning Duplicate (idSpan m) [''message'', name m]))"
    and b: "P (diagnosticOf Warning file
               (createWarning MismatchFileBundle \<lparr>span_start = 0, span_end = 0\<rparr>
                  [getDisplayPath an file, getBundleDisplay (file_bundle file),
                   getBundleDisplay (file_bundle srcFile)]))"
    and k: "\<forall>t\<in>set (terms file). ident t \<notin> set objectPrototypeKeys"
    and r: "compareFiles rt an (Own file) srcFile loc = Inr an'"
  shows "extends P (uri (path file)) an an'"
proof (cases "file_bundle file \<noteq> file_bundle srcFile")
  case True
  then show ?thesis
    using r b by (auto simp: compareFiles_def addWarning_def intro!: extends_addDiagnostic)
next
  case False
  let ?u = "uri (path file)"
  define srcTermById where "srcTermById = fold (\<lambda>t r. AList.update (ident t) t r) (terms srcFile) []"
  define srcMessageSet where "srcMessageSet = fold (\<lambda>sm ss. set_add (ident sm) ss) (messages srcFile) []"
  from r False obtain an1 where
    a1: "foldE (compareTerm file srcTermById) (terms file) an = Inr an1"
    and rest: "(let (messageById, an2) = fold (indexMessage file) (messages file) ([], an1)
                in bindE (foldE (compareSourceMessage file messageById) (messages srcFile) an2)
                     (\<lambda>an3. Inr (fold (unknownMessage file srcMessageSet) (messages file) an3))) = Inr an'"
    unfolding compareFiles_def Let_def srcTermById_def srcMessageSet_def
    by (cases "foldE (compareTerm file (fold (\<lambda>t r. AList.update (ident t) t r) (terms srcFile) []))
                 (terms file) an") (auto simp: Let_def)
  obtain messageById an2 where
    s2: "fold (indexMessage file) (messages file) ([], an1) = (messageById, an2)"
    by (cases "fold (indexMessage file) (messages file) ([], an1)")
  from rest s2 obtain an3 where
    a3: "foldE (compareSourceMessage file messageById) (messages srcFile) an2 = Inr an3"
    and a4: "an' = fold (unknownMessage file srcMessageSet) (messages file) an3"
    by (cases "foldE (compareSourceMessage file messageById) (messages srcFile) an2") auto
  have e1: "extends P ?u an an1"
    by (rule extends_foldE [OF _ a1]) (use k in \<open>auto intro: extends_compareTerm [OF ok]\<close>)
  have e2: "extends P ?u an1 an2"
    using extends_indexMessages [where ms = "messages file" and P = P and ?file = "file" and an = an1
        and ?r0.0 = "[]"] d by (simp add: s2)
  have e3: "extends P ?u an2 an3"
    by (rule extends_foldE [OF _ a3])
       (auto simp: compareSourceMessage_def addMissingMessageWarning_def extends_refl
          extends_addWarning [OF ok] split: property.splits
          intro: extends_compareMessages [OF ok])
  have e4: "extends P ?u an3 an'"
    unfolding a4
    by (rule extends_fold) (auto simp: unknownMessage_def extends_refl extends_warn [OF ok])
  show ?thesis
    using e1 e2 e3 e4 by (blast intro: extends_trans)
qed

lemma laterOccurrences_cong:
  "set seen = set seen' \<Longrightarrow> laterOccurrences seen ms = laterOccurrences seen' ms"
  by (induction ms arbitrary: seen seen') auto

lemma suppresses_cong:
  "analyzer_ignore an' = analyzer_ignore an \<Longrightarrow> suppresses an' m c = suppresses an m c"
  by (simp add: suppresses_def shouldIgnore_def)

lemma extends_ignore: "extends P u an an' \<Longrightarrow> analyzer_ignore an' = analyzer_ignore an"
  by (simp add: extends_def)

lemma extends_filter:
  "extends (\<lambda>d. \<not> Q d) u an an' \<Longrightarrow> filter Q (getDiagnosticsForUri an' u) = filter Q (getDiagnosticsForUri an u)"
  unfolding extends_def by (auto simp: list_all_iff filter_empty_conv)

lemma duplicate_step:
  "getDiagnosticsForUri (addEntryWarning an file (MessageEntry m) Duplicate [kind, name m]) (uri (path file)) =
     getDiagnosticsForUri an (uri (path file)) @
       (if suppresses an m ''duplicate'' then [] else [duplicateWarning file kind m])"
  by (simp add: addEntryWarning_def suppresses_def duplicateWarning_def getDiagnosticsForUri_addDiagnostic)

lemma duplicate_step_ignore:
  "analyzer_ignore (addEntryWarning an file e c args) = analyzer_ignore an"
  by (cases e) (simp_all add: addEntryWarning_def addDiagnostic_config)

lemma okFor_nondup: "okFor file (\<lambda>d. code d \<noteq> ''duplicate'')"
  by (simp add: okFor_def code_createWarning codeName_duplicate)

lemma code_duplicateWarning: "code (duplicateWarning file kind m) = ''duplicate''"
  by (simp add: duplicateWarning_def code_createWarning)

lemma checkSourceMessage_app:
  "checkSourceMessage file m (seenMessages, an) =
     bindE (checkMessageParams
              (if set_has seenMessages (ident m)
               then addEntryWarning an file (MessageEntry m) Duplicate [''message'', name m]
               else an) file m None True)
       (\<lambda>an2. Inr (set_add (ident m) seenMessages, an2))"
  by (simp add: checkSourceMessage_def Let_def)

lemma checkSourceTerm_app:
  "checkSourceTerm file t (seenTerms, an) =
     (set_add (ident t) seenTerms,
      if set_has seenTerms (ident t)
      then addEntryWarning an file (MessageEntry t) Duplicate [''term'', name t]
      else an)"
  by (simp add: checkSourceTerm_def)

lemma indexMessage_app:
  "indexMessage file m (r, an) =
     (AList.update (ident m) m r,
      if truthy (rec_get r (ident m))
      then addEntryWarning an file (MessageEntry m) Duplicate [''message'', name m]
      else an)"
  by (simp add: indexMessage_def)

lemma duplicates_step:
  assumes i1: "analyzer_ignore an1 = analyzer_ignore an"
    and d1: "getDiagnosticsForUri an1 u = getDiagnosticsForUri an u @
               map (duplicateWarning file kind) (filter (\<lambda>m. \<not> suppresses an m ''duplicate'') xs)"
    and i2: "analyzer_ignore an2 = analyzer_ignore an1"
    and d2: "getDiagnosticsForUri an2 u = getDiagnosticsForUri an1 u @
               map (duplicateWarning file kind) (filter (\<lambda>m. \<not> suppresses an1 m ''duplicate'') ys)"
  shows "analyzer_ignore an2 = analyzer_ignore an \<and>
         getDiagnosticsForUri an2 u = getDiagnosticsForUri an u @
               map (duplicateWarning file kind) (filter (\<lambda>m. \<not> suppresses an m ''duplicate'') (xs @ ys))"
proof -
  have "(\<lambda>m. \<not> suppresses an1 m ''duplicate'') = (\<lambda>m. \<not> suppresses an m ''duplicate'')"
    using suppresses_cong [OF i1] by simp
  then show ?thesis using i1 d1 i2 d2 by simp
qed

lemma duplicate_first:
  "analyzer_ignore (if b then addEntryWarning an file (MessageEntry m) Duplicate [kind, name m] else an)
     = analyzer_ignore an \<and>
   getDiagnosticsForUri (if b then addEntryWarning an file (MessageEntry m) Duplicate [kind, name m] else an)
       (uri (path file)) =
     getDiagnosticsForUri an (uri (path file)) @
       map (duplicateWarning file kind) (filter (\<lambda>m. \<not> suppresses an m ''duplicate'') (if b then [m] else []))"
  by (simp add: duplicate_step duplicate_step_ignore)

lemma checkSourceMessages_duplicates:
  "foldE (checkSourceMessage file) ms (seen, an) = Inr (seen', an') \<Longrightarrow>
     analyzer_ignore an' = analyzer_ignore an \<and>
     filter (\<lambda>d. code d = ''duplicate'') (getDiagnosticsForUri an' (uri (path file))) =
       filter (\<lambda>d. code d = ''duplicate'') (getDiagnosticsForUri an (uri (path file))) @
       map (duplicateWarning file ''message'')
         (filter (\<lambda>m. \<not> suppresses an m ''duplicate'') (laterOccurrences seen ms))"
proof (induction ms arbitrary: seen an)
  case Nil
  then show ?case by simp
next
  case (Cons m ms)
  let ?u = "uri (path file)"
  let ?an1 = "if set_has seen (ident m)
                 then addEntryWarning an file (MessageEntry m) Duplicate [''message'', name m]
                 else an"
  from Cons.prems obtain an2 where
    a: "checkMessageParams ?an1 file m None True = Inr an2"
    and b: "foldE (checkSourceMessage file) ms (set_add (ident m) seen, an2) = Inr (seen', an')"
    by (cases "checkMessageParams ?an1 file m None True") (auto simp: checkSourceMessage_app)
  have ex: "extends (\<lambda>d. code d \<noteq> ''duplicate'') ?u ?an1 an2"
    by (rule extends_checkMessageParams [OF okFor_nondup a])
  have i1: "analyzer_ignore ?an1 = analyzer_ignore an"
    by (simp add: duplicate_step_ignore)
  have i2: "analyzer_ignore an2 = analyzer_ignore an"
    using extends_ignore [OF ex] i1 by simp
  have f2: "filter (\<lambda>d. code d = ''duplicate'') (getDiagnosticsForUri an2 ?u) =
            filter (\<lambda>d. code d = ''duplicate'') (getDiagnosticsForUri ?an1 ?u)"
    using extends_filter [of "\<lambda>d. code d = ''duplicate''" ?u ?an1 an2] ex by simp
  have f1: "filter (\<lambda>d. code d = ''duplicate'') (getDiagnosticsForUri ?an1 ?u) =
            filter (\<lambda>d. code d = ''duplicate'') (getDiagnosticsForUri an ?u) @
              map (duplicateWarning file ''message'')
                (filter (\<lambda>m. \<not> suppresses an m ''duplicate'') (if ident m \<in> set seen then [m] else []))"
    by (simp add: duplicate_step set_has_def code_duplicateWarning)
  have s: "laterOccurrences (set_add (ident m) seen) ms = laterOccurrences (ident m # seen) ms"
    by (rule laterOccurrences_cong) (auto simp: set_add_def)
  have sc: "(\<lambda>m. \<not> suppresses an2 m ''duplicate'') = (\<lambda>m. \<not> suppresses an m ''duplicate'')"
    using suppresses_cong [OF i2] by simp
  from Cons.IH [OF b] show ?case
    by (simp add: i2 f2 f1 s sc)
qed

lemma checkSourceTerms_duplicates:
  "analyzer_ignore (snd (fold (checkSourceTerm file) ts (seen, an))) = analyzer_ignore an \<and>
   getDiagnosticsForUri (snd (fold (checkSourceTerm file) ts (seen, an))) (uri (path file)) =
     getDiagnosticsForUri an (uri (path file)) @
       map (duplicateWarning file ''term'')
         (filter (\<lambda>m. \<not> suppresses an m ''duplicate'') (laterOccurrences seen ts))"
proof (induction ts arbitrary: seen an)
  case Nil
  then show ?case by simp
next
  case (Cons t ts)
  let ?an1 = "if set_has seen (ident t)
      then addEntryWarning an file (MessageEntry t) Duplicate [''term'', name t]
      else an"
  have s: "laterOccurrences (set_add (ident t) seen) ts = laterOccurrences (ident t # seen) ts"
    by (rule laterOccurrences_cong) (auto simp: set_add_def)
  have f: "fold (checkSourceTerm file) (t # ts) (seen, an) =
           fold (checkSourceTerm file) ts (set_add (ident t) seen, ?an1)"
    by (simp add: checkSourceTerm_app)
  have l: "laterOccurrences seen (t # ts) =
           (if set_has seen (ident t) then [t] else []) @ laterOccurrences (set_add (ident t) seen) ts"
    by (simp add: s set_has_def)
  show ?case
    unfolding f l
    using duplicates_step [OF conjunct1 [OF duplicate_first] conjunct2 [OF duplicate_first]
        conjunct1 [OF Cons.IH] conjunct2 [OF Cons.IH]]
    by blast
qed

lemma indexMessages_duplicates:
  assumes "\<forall>m\<in>set ms. ident m \<notin> set objectPrototypeKeys"
  shows "analyzer_ignore (snd (fold (indexMessage file) ms (r, an))) = analyzer_ignore an \<and>
   getDiagnosticsForUri (snd (fold (indexMessage file) ms (r, an))) (uri (path file)) =
     getDiagnosticsForUri an (uri (path file)) @
       map (duplicateWarning file ''message'')
         (filter (\<lambda>m. \<not> suppresses an m ''duplicate'') (laterOccurrences (map fst r) ms))"
  using assms
proof (induction ms arbitrary: r an)
  case Nil
  then show ?case by simp
next
  case (Cons m ms)
  let ?an1 = "if truthy (rec_get r (ident m))
      then addEntryWarning an file (MessageEntry m) Duplicate [''message'', name m]
      else an"
  have t: "truthy (rec_get r (ident m)) = (ident m \<in> set (map fst r))"
  proof (cases "map_of r (ident m)")
    case None
    moreover from None have "ident m \<notin> fst ` set r" by (simp add: map_of_eq_None_iff)
    ultimately show ?thesis using Cons.prems by (simp add: rec_get_def)
  next
    case (Some x)
    then have "map_of r (ident m) \<noteq> None" by simp
    then have "ident m \<in> fst ` set r" by (simp add: map_of_eq_None_iff)
    then show ?thesis using Some by (simp add: rec_get_def)
  qed
  have s: "laterOccurrences (map fst (AList.update (ident m) m r)) ms = laterOccurrences (ident m # map fst r) ms"
    by (rule laterOccurrences_cong)
       (simp add: dom_update)
  have f: "fold (indexMessage file) (m # ms) (r, an) =
           fold (indexMessage file) ms (AList.update (ident m) m r, ?an1)"
    by (simp add: indexMessage_app)
  have l: "laterOccurrences (map fst r) (m # ms) =
           (if truthy (rec_get r (ident m)) then [m] else [])
             @ laterOccurrences (map fst (AList.update (ident m) m r)) ms"
    by (simp add: s t)
  have p: "\<forall>m\<in>set ms. ident m \<notin> set objectPrototypeKeys" using Cons.prems by simp
  show ?case
    unfolding f l
    using duplicates_step [OF conjunct1 [OF duplicate_first] conjunct2 [OF duplicate_first]
        conjunct1 [OF Cons.IH [OF p]] conjunct2 [OF Cons.IH [OF p]]]
    by blast
qed

subsection \<open>Duplicates\<close>

text \<open>
  Claim C7, as amended.  In a file checked by \<^verbatim>\<open>checkSourceGroup\<close>, the \<^verbatim>\<open>duplicate\<close> diagnostics
  that the check adds for the file are: one for each occurrence of a message identifier after
  its first, in order, placed on the identifier of that occurrence, except the occurrences
  whose message ignores \<^verbatim>\<open>duplicate\<close>; then the same for the terms.  No first occurrence is
  reported.  In a file compared by \<^verbatim>\<open>compareFiles\<close> with a source file of the same bundle the
  \<^verbatim>\<open>duplicate\<close> diagnostics added are the same ones for the messages, for identifiers that do
  not name a member of \<^verbatim>\<open>Object.prototype\<close>.
\<close>

theorem duplicate_messages:
  "(checkSourceFile file an = Inr an1 \<longrightarrow>
      filter (\<lambda>d. code d = ''duplicate'') (getDiagnosticsForUri an1 (uri (path file))) =
        filter (\<lambda>d. code d = ''duplicate'') (getDiagnosticsForUri an (uri (path file)))
        @ map (duplicateWarning file ''message'')
            (filter (\<lambda>m. \<not> suppresses an m ''duplicate'') (laterOccurrences [] (messages file)))
        @ map (duplicateWarning file ''term'')
            (filter (\<lambda>m. \<not> suppresses an m ''duplicate'') (laterOccurrences [] (terms file))))
   \<and> (compareFiles rt an (Own file) srcFile loc = Inr an2
        \<and> file_bundle file = file_bundle srcFile
        \<and> (\<forall>t\<in>set (terms file). ident t \<notin> set objectPrototypeKeys)
        \<and> (\<forall>m\<in>set (messages file). ident m \<notin> set objectPrototypeKeys) \<longrightarrow>
      filter (\<lambda>d. code d = ''duplicate'') (getDiagnosticsForUri an2 (uri (path file))) =
        filter (\<lambda>d. code d = ''duplicate'') (getDiagnosticsForUri an (uri (path file)))
        @ map (duplicateWarning file ''message'')
            (filter (\<lambda>m. \<not> suppresses an m ''duplicate'') (laterOccurrences [] (messages file))))"
proof (intro conjI impI)
  let ?u = "uri (path file)"
  let ?dup = "\<lambda>d. code d = ''duplicate''"
  assume r: "checkSourceFile file an = Inr an1"
  then obtain seen a1 where
    a: "foldE (checkSourceMessage file) (messages file) ([], an) = Inr (seen, a1)"
    and b: "an1 = snd (fold (checkSourceTerm file) (terms file) ([], a1))"
    by (cases "foldE (checkSourceMessage file) (messages file) ([], an)")
       (auto simp: checkSourceFile_def)
  note m = checkSourceMessages_duplicates [OF a]
  note t = checkSourceTerms_duplicates [of "file" "terms file" "[]" a1]
  have sc: "(\<lambda>m. \<not> suppresses a1 m ''duplicate'') = (\<lambda>m. \<not> suppresses an m ''duplicate'')"
    using suppresses_cong [of a1 an] m by simp
  show "filter ?dup (getDiagnosticsForUri an1 ?u) =
        filter ?dup (getDiagnosticsForUri an ?u)
        @ map (duplicateWarning file ''message'')
            (filter (\<lambda>m. \<not> suppresses an m ''duplicate'') (laterOccurrences [] (messages file)))
        @ map (duplicateWarning file ''term'')
            (filter (\<lambda>m. \<not> suppresses an m ''duplicate'') (laterOccurrences [] (terms file)))"
    using m t by (simp add: b sc code_duplicateWarning)
next
  let ?u = "uri (path file)"
  let ?dup = "\<lambda>d. code d = ''duplicate''"
  let ?nd = "\<lambda>d. code d \<noteq> ''duplicate''"
  assume h: "compareFiles rt an (Own file) srcFile loc = Inr an2
        \<and> file_bundle file = file_bundle srcFile
        \<and> (\<forall>t\<in>set (terms file). ident t \<notin> set objectPrototypeKeys)
        \<and> (\<forall>m\<in>set (messages file). ident m \<notin> set objectPrototypeKeys)"
  then have r: "compareFiles rt an (Own file) srcFile loc = Inr an2"
    and bu: "file_bundle file = file_bundle srcFile"
    and kt: "\<forall>t\<in>set (terms file). ident t \<notin> set objectPrototypeKeys"
    and km: "\<forall>m\<in>set (messages file). ident m \<notin> set objectPrototypeKeys"
    by simp_all
  define srcTermById where "srcTermById = fold (\<lambda>t r. AList.update (ident t) t r) (terms srcFile) []"
  define srcMessageSet where "srcMessageSet = fold (\<lambda>sm ss. set_add (ident sm) ss) (messages srcFile) []"
  from r bu obtain a1 where
    a1: "foldE (compareTerm file srcTermById) (terms file) an = Inr a1"
    and rest: "(let (messageById, a2) = fold (indexMessage file) (messages file) ([], a1)
                in bindE (foldE (compareSourceMessage file messageById) (messages srcFile) a2)
                     (\<lambda>a3. Inr (fold (unknownMessage file srcMessageSet) (messages file) a3))) = Inr an2"
    unfolding compareFiles_def Let_def srcTermById_def srcMessageSet_def
    by (cases "foldE (compareTerm file (fold (\<lambda>t r. AList.update (ident t) t r) (terms srcFile) []))
                 (terms file) an") (auto simp: Let_def)
  obtain messageById a2 where
    s2: "fold (indexMessage file) (messages file) ([], a1) = (messageById, a2)"
    by (cases "fold (indexMessage file) (messages file) ([], a1)")
  from rest s2 obtain a3 where
    a3: "foldE (compareSourceMessage file messageById) (messages srcFile) a2 = Inr a3"
    and a4: "an2 = fold (unknownMessage file srcMessageSet) (messages file) a3"
    by (cases "foldE (compareSourceMessage file messageById) (messages srcFile) a2") auto
  note ok = okFor_nondup [of "file"]
  have e1: "extends ?nd ?u an a1"
    by (rule extends_foldE [OF _ a1]) (use kt in \<open>auto intro: extends_compareTerm [OF ok]\<close>)
  have e3: "extends ?nd ?u a2 a3"
    by (rule extends_foldE [OF _ a3])
       (auto simp: compareSourceMessage_def addMissingMessageWarning_def extends_refl
          extends_addWarning [OF ok] split: property.splits
          intro: extends_compareMessages [OF ok])
  have e4: "extends ?nd ?u a3 an2"
    unfolding a4
    by (rule extends_fold) (auto simp: unknownMessage_def extends_refl extends_warn [OF ok])
  have e34: "extends ?nd ?u a2 an2"
    using e3 e4 by (rule extends_trans)
  have f1: "filter ?dup (getDiagnosticsForUri a1 ?u) = filter ?dup (getDiagnosticsForUri an ?u)"
    using extends_filter [of ?dup ?u an a1] e1 by simp
  have f34: "filter ?dup (getDiagnosticsForUri an2 ?u) = filter ?dup (getDiagnosticsForUri a2 ?u)"
    using extends_filter [of ?dup ?u a2 an2] e34 by simp
  have sc: "(\<lambda>m. \<not> suppresses a1 m ''duplicate'') = (\<lambda>m. \<not> suppresses an m ''duplicate'')"
    using suppresses_cong [of a1 an] extends_ignore [OF e1] by simp
  have f2: "getDiagnosticsForUri a2 ?u = getDiagnosticsForUri a1 ?u
        @ map (duplicateWarning file ''message'')
            (filter (\<lambda>m. \<not> suppresses an m ''duplicate'') (laterOccurrences [] (messages file)))"
    using indexMessages_duplicates [OF km, of "file" "[]" a1] by (simp add: s2 sc)
  show "filter ?dup (getDiagnosticsForUri an2 ?u) =
        filter ?dup (getDiagnosticsForUri an ?u)
        @ map (duplicateWarning file ''message'')
            (filter (\<lambda>m. \<not> suppresses an m ''duplicate'') (laterOccurrences [] (messages file)))"
    by (simp add: f34 f2 f1 code_duplicateWarning)
qed

text \<open>
  Two messages \<^verbatim>\<open>msg\<close> in one file: one \<^verbatim>\<open>duplicate\<close>, on the second identifier (line 2,
  columns 1 to 4).
\<close>

theorem duplicate_messages_witness:
  "filter (\<lambda>d. code d = ''duplicate'')
     (getDiagnosticsForUri
        (case checkSourceFile (ex_dup_file ''en'' [ex_hi, ex_hi2]) ex_analyzer of
           Inr a \<Rightarrow> a | Inl e \<Rightarrow> ex_analyzer)
        ''file:///base/strings/en/a.ftl'') =
     [duplicateWarning (ex_dup_file ''en'' [ex_hi, ex_hi2]) ''message'' ex_hi2]
   \<and> diag_range (duplicateWarning (ex_dup_file ''en'' [ex_hi, ex_hi2]) ''message'' ex_hi2) =
       \<lparr>range_start = \<lparr>line = 2, column = 1, index = 9\<rparr>,
        range_end = \<lparr>line = 2, column = 4, index = 12\<rparr>\<rparr>"
proof -
  let ?f = "ex_dup_file ''en'' [ex_hi, ex_hi2]"
  let ?a = "case checkSourceFile ?f ex_analyzer of Inr a \<Rightarrow> a | Inl e \<Rightarrow> ex_analyzer"
  have r: "checkSourceFile ?f ex_analyzer = Inr ?a"
    by code_simp
  have u: "uri (path ?f) = ''file:///base/strings/en/a.ftl''"
    by code_simp
  have l: "filter (\<lambda>m. \<not> suppresses ex_analyzer m ''duplicate'') (laterOccurrences [] (messages ?f)) = [ex_hi2]"
    by code_simp
  have t: "terms ?f = []"
    by code_simp
  have o: "getDiagnosticsForUri ex_analyzer ''file:///base/strings/en/a.ftl'' = []"
    by code_simp
  have g: "diag_range (duplicateWarning ?f ''message'' ex_hi2) =
       \<lparr>range_start = \<lparr>line = 2, column = 1, index = 9\<rparr>,
        range_end = \<lparr>line = 2, column = 4, index = 12\<rparr>\<rparr>"
    by code_simp
  show ?thesis
    using duplicate_messages [of ?f ex_analyzer ?a] r g by (simp add: u l t o)
qed

text \<open>
  Claim C7 as stated fails: of two messages \<^verbatim>\<open>msg\<close> in one file the second has its
  \<^verbatim>\<open>ignoreAll\<close> flag set, and nothing is reported.
\<close>

theorem duplicate_suppressed:
  "map ident (messages (ex_dup_file ''en'' [ex_hi, ex_hi2\<lparr>ignoreAll := Some True\<rparr>])) = [''msg'', ''msg'']
   \<and> (case checkSourceFile (ex_dup_file ''en'' [ex_hi, ex_hi2\<lparr>ignoreAll := Some True\<rparr>]) ex_analyzer of
         Inr a \<Rightarrow> getDiagnostics a = [] | Inl e \<Rightarrow> False)"
  by code_simp

text \<open>
  Claim C10 (the code departs from it).  The record that the term loop of \<^verbatim>\<open>compareFiles\<close>
  reads is never written, but it is a plain object: the read \<^verbatim>\<open>rec[term.id]\<close> is truthy for an
  identifier such as \<^verbatim>\<open>toString\<close>, which the empty record inherits.  A target file with the
  term \<^verbatim>\<open>-toString\<close> twice gets two \<^verbatim>\<open>duplicate\<close> diagnostics for terms, one of them on the first
  occurrence.
\<close>

theorem term_named_like_prototype_member:
  "(case compareFiles (ex_runtime [] []) ex_analyzer
           (Own ((ex_file ''fr'')\<lparr>terms := [ex_term ''toString'', ex_term ''toString'']\<rparr>))
           ((ex_file ''en'')\<lparr>terms := [ex_term ''toString'']\<rparr>) ''fr'' of
      Inr a \<Rightarrow> map message (getDiagnosticsForUri a ''file:///base/strings/fr/a.ftl'')
    | Inl e \<Rightarrow> []) =
   [''Duplicate term \"-toString\"'', ''Duplicate term \"-toString\"'']"
  by code_simp

text \<open>
  For every other identifier the read is \<^verbatim>\<open>undefined\<close>: when the terms of the target file
  have identifiers that do not name a member of \<^verbatim>\<open>Object.prototype\<close>, no diagnostic that
  \<^verbatim>\<open>compareFiles\<close> adds is a \<^verbatim>\<open>duplicate\<close> of a term, however often an identifier occurs among the
  terms.
\<close>

theorem compareFiles_terms_no_duplicate:
  assumes "compareFiles rt an (Own file) srcFile loc = Inr an'"
    and "\<forall>t\<in>set (terms file). ident t \<notin> set objectPrototypeKeys"
  shows "\<exists>new. getDiagnosticsForUri an' (uri (path file)) = getDiagnosticsForUri an (uri (path file)) @ new
               \<and> list_all (\<lambda>d. \<not> termDuplicate d) new"
proof -
  have d: "\<not> termDuplicate (diagnosticOf Warning file (createWarning Duplicate span [''message'', n]))"
    for span n
    by (simp add: termDuplicate_def message_duplicate startsWith_def)
  have b: "\<not> termDuplicate (diagnosticOf Warning file (createWarning MismatchFileBundle span args))"
    for span args
    by (simp add: termDuplicate_def code_createWarning)
  have "extends (\<lambda>d. \<not> termDuplicate d) (uri (path file)) an an'"
    by (rule extends_compareFiles [OF okFor_notTermDuplicate _ _ assms(2) assms(1)]) (rule d b)+
  then show ?thesis
    by (simp add: extends_def)
qed

text \<open>A target file with the term \<^verbatim>\<open>-brand\<close> twice: nothing is reported.\<close>

theorem compareFiles_terms_no_duplicate_witness:
  "compareFiles (ex_runtime [] []) ex_analyzer
      (Own ((ex_file ''fr'')\<lparr>terms := [ex_term ''brand'', ex_term ''brand'']\<rparr>))
      ((ex_file ''en'')\<lparr>terms := [ex_term ''brand'']\<rparr>) ''fr'' = Inr ex_analyzer
   \<and> (\<exists>new. getDiagnosticsForUri ex_analyzer ''file:///base/strings/fr/a.ftl'' =
               getDiagnosticsForUri ex_analyzer ''file:///base/strings/fr/a.ftl'' @ new
             \<and> list_all (\<lambda>d. \<not> termDuplicate d) new)"
proof -
  let ?f = "(ex_file ''fr'')\<lparr>terms := [ex_term ''brand'', ex_term ''brand'']\<rparr>"
  have r: "compareFiles (ex_runtime [] []) ex_analyzer (Own ?f)
      ((ex_file ''en'')\<lparr>terms := [ex_term ''brand'']\<rparr>) ''fr'' = Inr ex_analyzer"
    by code_simp
  have k: "\<forall>t\<in>set (terms ?f). ident t \<notin> set objectPrototypeKeys"
    by code_simp
  have u: "uri (path ?f) = ''file:///base/strings/fr/a.ftl''"
    by code_simp
  show ?thesis
    using compareFiles_terms_no_duplicate [OF r k] r by (simp add: u)
qed

subsection \<open>Reading a file\<close>

lemma bindE_rel:
  "rel_sum (=) R x y \<Longrightarrow> (\<And>a b. R a b \<Longrightarrow> rel_sum (=) S (f a) (g b))
     \<Longrightarrow> rel_sum (=) S (bindE x f) (bindE y g)"
  by (cases x; cases y) auto

lemma foldE_rel:
  assumes "\<And>x s t. x \<in> set xs \<Longrightarrow> R s t \<Longrightarrow> rel_sum (=) R (f x s) (f x t)" and "R s t"
  shows "rel_sum (=) R (foldE f xs s) (foldE f xs t)"
  using assms
proof (induction xs arbitrary: s t)
  case Nil
  then show ?case by simp
next
  case (Cons x xs)
  show ?case
    unfolding foldE.simps
    by (rule bindE_rel [where R = R]) (use Cons in auto)
qed

lemma agree_addDiagnostic:
  "agree u a b \<Longrightarrow> agree u (addDiagnostic a sev file r) (addDiagnostic b sev file r)"
  by (auto simp: agree_def getDiagnosticsForUri_addDiagnostic)

lemma agree_convertAttributes:
  "agree u a b \<Longrightarrow>
     fst (fold (convertAttribute state n) attrs (r, a)) = fst (fold (convertAttribute state n) attrs (r, b))
     \<and> agree u (snd (fold (convertAttribute state n) attrs (r, a)))
                (snd (fold (convertAttribute state n) attrs (r, b)))"
proof (induction attrs arbitrary: r a b)
  case Nil
  then show ?case by simp
next
  case (Cons x xs)
  obtain r1 a1 where s1: "convertAttribute state n x (r, a) = (r1, a1)"
    by (cases "convertAttribute state n x (r, a)")
  obtain r2 b1 where s2: "convertAttribute state n x (r, b) = (r2, b1)"
    by (cases "convertAttribute state n x (r, b)")
  have "r1 = r2" "agree u a1 b1"
    using s1 s2 Cons.prems
    by (auto simp: convertAttribute_def Let_def addEntryWarning_def agree_addDiagnostic split: if_splits)
  then show ?case
    using Cons.IH [of a1 b1 r1] by (simp add: s1 s2)
qed

lemma agree_convertMessage:
  assumes "agree u a b"
  shows "rel_sum (=) (\<lambda>(i1, a1) (i2, b1). i1 = i2 \<and> agree u a1 b1)
           (convertMessage rt a e state t) (convertMessage rt b e state t)"
proof -
  let ?n = "if t then ''-'' @ entry_id_name e else entry_id_name e"
  note c = agree_convertAttributes [OF assms, of state ?n "entry_attributes e" "[]"]
  obtain r1 a1 where s1: "fold (convertAttribute state ?n) (entry_attributes e) ([], a) = (r1, a1)"
    by (cases "fold (convertAttribute state ?n) (entry_attributes e) ([], a)")
  obtain r2 b1 where s2: "fold (convertAttribute state ?n) (entry_attributes e) ([], b) = (r2, b1)"
    by (cases "fold (convertAttribute state ?n) (entry_attributes e) ([], b)")
  have eq: "r1 = r2" "agree u a1 b1" using c s1 s2 by simp_all
  show ?thesis
    unfolding convertMessage_def Let_def s1 s2 eq(1) prod.case
    by (cases "entry_comment e")
       (auto simp: eq(2) intro!: bindE_rel [where R = "(=)"] sum.rel_refl)
qed


lemma agree_readEntry:
  assumes "agree u a b"
  shows "rel_sum (=) (\<lambda>(a1, f1, s1) (b1, f2, s2). f1 = f2 \<and> s1 = s2 \<and> agree u a1 b1)
           (readEntry rt entry (a, file, state)) (readEntry rt entry (b, file, state))"
proof (cases entry)
  case (Message e)
  then show ?thesis
    using agree_convertMessage [OF assms, of rt e "state\<lparr>state_file := file\<rparr>" False]
    by (auto simp: readEntry_def
        intro!: bindE_rel [where R = "\<lambda>(i1, a1) (i2, b1). i1 = i2 \<and> agree u a1 b1"])
next
  case (Term e)
  then show ?thesis
    using agree_convertMessage [OF assms, of rt e "state\<lparr>state_file := file\<rparr>" True]
    by (auto simp: readEntry_def
        intro!: bindE_rel [where R = "\<lambda>(i1, a1) (i2, b1). i1 = i2 \<and> agree u a1 b1"])
next
  case (ResourceComment body)
  then show ?thesis using assms by (simp add: readEntry_def)
next
  case (Junk annots)
  have "agree u (fold (\<lambda>annot a. addError a file annot) annots a)
                (fold (\<lambda>annot a. addError a file annot) annots b)"
    using assms by (induction annots arbitrary: a b) (auto simp: addError_def agree_addDiagnostic)
  with Junk show ?thesis by (simp add: readEntry_def)
next
  case OtherEntry
  then show ?thesis using assms by (simp add: readEntry_def)
qed

lemma agree_read:
  "rel_sum (=) (\<lambda>(a1, f1) (b1, f2). f1 = f2 \<and> agree (uri (path file)) a1 b1)
     (read rt (an\<lparr>diagnostics := old1\<rparr>) file) (read rt (an\<lparr>diagnostics := old2\<rparr>) file)"
proof (cases "readFile rt (uri (path file))")
  case None
  then show ?thesis
    by (simp add: read_def agree_def getDiagnosticsForUri_def delete_conv')
next
  case (Some body)
  let ?u = "uri (path file)"
  let ?R = "\<lambda>(a1, f1, s1) (b1, f2, s2). f1 = f2 \<and> s1 = s2 \<and> agree ?u a1 b1"
  let ?f0 = "file\<lparr>content := body, hash := Some (murmurhash_v3 rt body)\<rparr>"
  let ?s0 = "\<lparr>state_translate = Required, state_file = ?f0, state_bundle = None,
                        state_global = None, state_ignore = [], state_ignoreAll = None\<rparr>"
  let ?a = "an\<lparr>diagnostics := AList.delete ?u old1\<rparr>"
  let ?b = "an\<lparr>diagnostics := AList.delete ?u old2\<rparr>"
  have a0: "agree ?u ?a ?b"
    by (simp add: agree_def getDiagnosticsForUri_def delete_conv')
  have "rel_sum (=) ?R (foldE (readEntry rt) (parse rt body) (?a, ?f0, ?s0))
                        (foldE (readEntry rt) (parse rt body) (?b, ?f0, ?s0))"
    by (rule foldE_rel [where R = ?R]) (use a0 agree_readEntry in auto)
  then show ?thesis
    unfolding read_def Let_def using Some
    by (auto intro!: bindE_rel [where R = ?R])
qed

text \<open>
  Claim C9.  After \<^verbatim>\<open>read\<close> the diagnostics stored for the file are those that the same read
  leaves on an empty store: nothing recorded earlier for the file survives.  When the content
  cannot be read, \<^verbatim>\<open>read\<close> still returns, with no diagnostics for the file.  A URI with no
  entry in the store has the empty list.
\<close>

theorem read_clears_previous:
  "(read rt an file = Inr (an', file') \<longrightarrow>
      getDiagnosticsForUri an' (uri (path file)) = freshDiagnostics rt an file)
   \<and> (readFile rt (uri (path file)) = None \<longrightarrow>
        (\<exists>an1. read rt an file = Inr (an1, file) \<and> getDiagnosticsForUri an1 (uri (path file)) = []))
   \<and> (map_of (diagnostics an) u = None \<longrightarrow> getDiagnosticsForUri an u = [])"
proof (intro conjI impI)
  assume r: "read rt an file = Inr (an', file')"
  have "rel_sum (=) (\<lambda>(a1, f1) (b1, f2). f1 = f2 \<and> agree (uri (path file)) a1 b1)
     (read rt (an\<lparr>diagnostics := diagnostics an\<rparr>) file) (read rt (an\<lparr>diagnostics := []\<rparr>) file)"
    by (rule agree_read)
  then show "getDiagnosticsForUri an' (uri (path file)) = freshDiagnostics rt an file"
    using r by (cases "read rt (an\<lparr>diagnostics := []\<rparr>) file") (auto simp: freshDiagnostics_def agree_def)
next
  assume "readFile rt (uri (path file)) = None"
  then show "\<exists>an1. read rt an file = Inr (an1, file) \<and> getDiagnosticsForUri an1 (uri (path file)) = []"
    by (simp add: read_def getDiagnosticsForUri_def delete_conv')
next
  assume "map_of (diagnostics an) u = None"
  then show "getDiagnosticsForUri an u = []"
    by (simp add: getDiagnosticsForUri_def)
qed

text \<open>
  A file with an old \<^verbatim>\<open>duplicate\<close> warning is read again and now holds junk: the syntax error
  is all that is stored for it.  Read again when it cannot be opened, it has no diagnostics.
\<close>

theorem read_clears_previous_witness:
  "map code
     (getDiagnosticsForUri
        (case read (ex_runtime [(''file:///base/strings/en/a.ftl'', ''msg'')] [(''msg'', [ex_junk])])
                (ex_analyzer\<lparr>diagnostics := [(''file:///base/strings/en/a.ftl'', [ex_old_diagnostic])]\<rparr>)
                (ex_file ''en'') of
           Inr (a, f) \<Rightarrow> a
         | Inl e \<Rightarrow> ex_analyzer\<lparr>diagnostics := [(''file:///base/strings/en/a.ftl'', [ex_old_diagnostic])]\<rparr>)
        ''file:///base/strings/en/a.ftl'') = [''E0003'']
   \<and> (\<exists>an1. read (ex_runtime [] [])
            (ex_analyzer\<lparr>diagnostics := [(''file:///base/strings/en/a.ftl'', [ex_old_diagnostic])]\<rparr>)
            (ex_file ''en'') = Inr (an1, ex_file ''en'')
          \<and> getDiagnosticsForUri an1 ''file:///base/strings/en/a.ftl'' = [])
   \<and> getDiagnosticsForUri ex_analyzer ''file:///base/strings/fr/a.ftl'' = []"
proof -
  let ?rt = "ex_runtime [(''file:///base/strings/en/a.ftl'', ''msg'')] [(''msg'', [ex_junk])]"
  let ?an = "ex_analyzer\<lparr>diagnostics := [(''file:///base/strings/en/a.ftl'', [ex_old_diagnostic])]\<rparr>"
  let ?f = "ex_file ''en''"
  let ?a = "case read ?rt ?an ?f of Inr (a, f) \<Rightarrow> a | Inl e \<Rightarrow> ?an"
  let ?g = "case read ?rt ?an ?f of Inr (a, f) \<Rightarrow> f | Inl e \<Rightarrow> ?f"
  have r: "read ?rt ?an ?f = Inr (?a, ?g)"
    by code_simp
  have u: "uri (path ?f) = ''file:///base/strings/en/a.ftl''"
    by code_simp
  have fr: "map code (freshDiagnostics ?rt ?an ?f) = [''E0003'']"
    by code_simp
  have n: "readFile (ex_runtime [] []) (uri (path ?f)) = None"
    by code_simp
  have e: "map_of (diagnostics ex_analyzer) ''file:///base/strings/fr/a.ftl'' = None"
    by code_simp
  have c1: "map code (getDiagnosticsForUri ?a ''file:///base/strings/en/a.ftl'') = [''E0003'']"
    using read_clears_previous [of ?rt ?an ?f ?a ?g] r fr by (simp add: u)
  have c2: "\<exists>an1. read (ex_runtime [] []) ?an ?f = Inr (an1, ?f)
          \<and> getDiagnosticsForUri an1 ''file:///base/strings/en/a.ftl'' = []"
    using read_clears_previous [of "ex_runtime [] []" ?an ?f] n by (simp add: u)
  have c3: "getDiagnosticsForUri ex_analyzer ''file:///base/strings/fr/a.ftl'' = []"
    using read_clears_previous [of _ ex_analyzer _ _ _ "''file:///base/strings/fr/a.ftl''"] e by simp
  show ?thesis
    using c1 c2 c3 by blast
qed

subsection \<open>A collection without a source group\<close>

lemma addEntryWarning_sourceLocale:
  "sourceLocale (addEntryWarning an file e c args) = sourceLocale an"
  by (cases e) (simp_all add: addEntryWarning_def addDiagnostic_config)

lemma foldE_inv:
  "(\<And>x s s'. x \<in> set xs \<Longrightarrow> f x s = Inr s' \<Longrightarrow> I s \<Longrightarrow> I s') \<Longrightarrow> foldE f xs s = Inr s' \<Longrightarrow> I s \<Longrightarrow> I s'"
proof (induction xs arbitrary: s)
  case Nil
  then show ?case by simp
next
  case (Cons x xs)
  then obtain s1 where s1: "f x s = Inr s1" "foldE f xs s1 = Inr s'"
    by (cases "f x s") auto
  have i: "I s1" using Cons.prems(1) [of x s s1] s1 Cons.prems(3) by simp
  show ?case
    by (rule Cons.IH [OF _ s1(2) i]) (use Cons.prems(1) in auto)
qed

lemma convertAttributes_sourceLocale:
  "sourceLocale (snd (fold (convertAttribute state n) attrs (r, a))) = sourceLocale a"
proof (induction attrs arbitrary: r a)
  case Nil
  then show ?case by simp
next
  case (Cons x xs)
  obtain r1 a1 where s1: "convertAttribute state n x (r, a) = (r1, a1)"
    by (cases "convertAttribute state n x (r, a)")
  then have "sourceLocale a1 = sourceLocale a"
    by (auto simp: convertAttribute_def Let_def addEntryWarning_sourceLocale split: if_splits)
  then show ?case using Cons.IH [of r1 a1] by (simp add: s1)
qed

lemma convertMessage_sourceLocale:
  assumes "convertMessage rt a e state t = Inr (info, a')"
  shows "sourceLocale a' = sourceLocale a"
proof -
  let ?n = "if t then ''-'' @ entry_id_name e else entry_id_name e"
  obtain r1 a1 where s1: "fold (convertAttribute state ?n) (entry_attributes e) ([], a) = (r1, a1)"
    by (cases "fold (convertAttribute state ?n) (entry_attributes e) ([], a)")
  have "sourceLocale a1 = sourceLocale a"
    using convertAttributes_sourceLocale [of state ?n "entry_attributes e" "[]" a] by (simp add: s1)
  moreover have "a' = a1"
    using assms unfolding convertMessage_def Let_def s1 prod.case
    by (cases "entry_comment e"; cases "handleEntryAnnotations rt
       \<lparr>ident = entry_id_name e, name = ?n, val = entry_value e,
          idSpan = \<lparr>span_start = if t then span_start (entry_id_span e) - 1 else span_start (entry_id_span e),
                     span_end = span_end (entry_id_span e)\<rparr>,
          translate = state_translate state, expectIdentical = None, params = [],
          variables = collectVariables (case entry_value e of None \<Rightarrow> Null | Some p \<Rightarrow> Present p),
          isTerm = t, comment = None, attributes = r1, ignoreAll = None, ignore = state_ignore state\<rparr>
       (annotations (readAnnots (the (entry_comment e))))") auto
  ultimately show ?thesis by simp
qed

lemma readEntry_sourceLocale:
  assumes "readEntry rt entry (a, file, state) = Inr (a', file', state')"
  shows "sourceLocale a' = sourceLocale a"
proof (cases entry)
  case (Message e)
  then show ?thesis
    using assms convertMessage_sourceLocale [of rt a e "state\<lparr>state_file := file\<rparr>" False]
    by (cases "convertMessage rt a e (state\<lparr>state_file := file\<rparr>) False") (auto simp: readEntry_def)
next
  case (Term e)
  then show ?thesis
    using assms convertMessage_sourceLocale [of rt a e "state\<lparr>state_file := file\<rparr>" True]
    by (cases "convertMessage rt a e (state\<lparr>state_file := file\<rparr>) True") (auto simp: readEntry_def)
next
  case (ResourceComment body)
  then show ?thesis using assms by (simp add: readEntry_def)
next
  case (Junk annots)
  have "sourceLocale (fold (\<lambda>annot a. addError a file annot) annots a) = sourceLocale a"
    by (induction annots arbitrary: a) (auto simp: addError_def addDiagnostic_config)
  with Junk show ?thesis using assms by (auto simp: readEntry_def)
next
  case OtherEntry
  then show ?thesis using assms by (simp add: readEntry_def)
qed

lemma read_sourceLocale:
  assumes "read rt an file = Inr (an', file')"
  shows "sourceLocale an' = sourceLocale an"
proof (cases "readFile rt (uri (path file))")
  case None
  then show ?thesis using assms by (auto simp: read_def)
next
  case (Some body)
  let ?a0 = "an\<lparr>diagnostics := AList.delete (uri (path file)) (diagnostics an)\<rparr>"
  let ?f0 = "file\<lparr>content := body, hash := Some (murmurhash_v3 rt body)\<rparr>"
  let ?s0 = "\<lparr>state_translate = Required, state_file = ?f0, state_bundle = None,
                        state_global = None, state_ignore = [], state_ignoreAll = None\<rparr>"
  from assms Some obtain a1 f1 s1 where
    r: "foldE (readEntry rt) (parse rt body) (?a0, ?f0, ?s0) = Inr (a1, f1, s1)" and e: "an' = a1"
    by (cases "foldE (readEntry rt) (parse rt body) (?a0, ?f0, ?s0)") (auto simp: read_def Let_def)
  have "(\<lambda>(a, f, s). sourceLocale a = sourceLocale an) (a1, f1, s1)"
    by (rule foldE_inv [OF _ r]) (auto dest: readEntry_sourceLocale)
  then show ?thesis using e by simp
qed

lemma readGroup_sourceLocale:
  assumes "readGroup rt an g = Inr (an', g')"
  shows "sourceLocale an' = sourceLocale an"
proof -
  from assms obtain fs where
    r: "foldE (readGroupFile rt) (files g) (an, []) = Inr (an', fs)"
    by (cases "foldE (readGroupFile rt) (files g) (an, [])") (auto simp: readGroup_def)
  have "(\<lambda>(a, d). sourceLocale a = sourceLocale an) (an', fs)"
  proof (rule foldE_inv [OF _ r])
    fix x s s'
    assume "readGroupFile rt x s = Inr s'" "(case s of (a, d) \<Rightarrow> sourceLocale a = sourceLocale an)"
    then show "case s' of (a, d) \<Rightarrow> sourceLocale a = sourceLocale an"
      by (cases x; cases s; cases "read rt (fst s) (snd x)")
         (auto simp: readGroupFile_def dest: read_sourceLocale)
  qed simp
  then show ?thesis by simp
qed

lemma readCollectionGroups_keys:
  "foldE (readCollectionGroup rt) gs (an, acc) = Inr (an', gs') \<Longrightarrow>
     sourceLocale an' = sourceLocale an \<and> map fst gs' = map fst acc @ map fst gs"
proof (induction gs arbitrary: an acc)
  case Nil
  then show ?case by simp
next
  case (Cons x xs)
  obtain k g where x: "x = (k, g)" by (cases x)
  from Cons.prems x obtain a1 g1 where
    r: "readGroup rt an g = Inr (a1, g1)"
    and rest: "foldE (readCollectionGroup rt) xs (a1, acc @ [(k, g1)]) = Inr (an', gs')"
    by (cases "readGroup rt an g") (auto simp: readCollectionGroup_def)
  show ?case
    using Cons.IH [OF rest] readGroup_sourceLocale [OF r] x by simp
qed

text \<open>
  Claim C1, as amended.  For a collection with no group under the source locale,
  \<^verbatim>\<open>processCollection\<close> is the pass that reads every group and nothing more: neither
  \<^verbatim>\<open>checkSourceGroup\<close> nor \<^verbatim>\<open>compareGroups\<close> runs.
\<close>

theorem processCollection_without_source_group:
  assumes "map_of (groups c) (sourceLocale an) = None"
  shows "processCollection rt an c =
           bindE (foldE (readCollectionGroup rt) (groups c) (an, []))
             (\<lambda>(an1, gs). Inr (an1, c\<lparr>groups := gs\<rparr>))"
proof (cases "foldE (readCollectionGroup rt) (groups c) (an, [])")
  case (Inl e)
  then show ?thesis by (simp add: processCollection_def)
next
  case (Inr p)
  obtain an1 gs where p: "p = (an1, gs)" by (cases p)
  have k: "sourceLocale an1 = sourceLocale an" "map fst gs = map fst (groups c)"
    using readCollectionGroups_keys [of rt "groups c" an "[]" an1 gs] Inr p by simp_all
  have "sourceLocale an \<notin> fst ` set (groups c)"
    using assms by (simp add: map_of_eq_None_iff)
  then have "sourceLocale an1 \<notin> fst ` set gs"
    using k by (metis list.set_map)
  then have "map_of gs (sourceLocale an1) = None"
    by (simp add: map_of_eq_None_iff)
  then show ?thesis
    using Inr p by (simp add: processCollection_def)
qed

theorem processCollection_without_source_group_witness:
  "processCollection ex_runtime_twice ex_analyzer (ex_collection [ex_group ''fr'' [''a'']]) =
     bindE (foldE (readCollectionGroup ex_runtime_twice) (groups (ex_collection [ex_group ''fr'' [''a'']]))
              (ex_analyzer, []))
       (\<lambda>(an1, gs). Inr (an1, (ex_collection [ex_group ''fr'' [''a'']])\<lparr>groups := gs\<rparr>))"
proof -
  have "map_of (groups (ex_collection [ex_group ''fr'' [''a'']])) (sourceLocale ex_analyzer) = None"
    by code_simp
  then show ?thesis
    by (rule processCollection_without_source_group)
qed

text \<open>
  Claim C1 as stated fails: the collection has the one locale \<^verbatim>\<open>fr\<close>, whose file has the message
  \<^verbatim>\<open>msg\<close> twice.  Processing it reports nothing, although the check for duplicates, run on the
  group as read, reports the second \<^verbatim>\<open>msg\<close>.
\<close>

theorem no_source_group_no_duplicate_check:
  "(case processCollection ex_runtime_twice ex_analyzer (ex_collection [ex_group ''fr'' [''a'']]) of
      Inr (an, c) \<Rightarrow>
        getDiagnostics an = []
        \<and> map (\<lambda>(k, g). map (\<lambda>(u, f). map ident (messages f)) (files g)) (groups c) = [[[''msg'', ''msg'']]]
        \<and> (case checkSourceGroup an (snd (hd (groups c))) of
             Inr a \<Rightarrow> map code (getDiagnostics a) = [''duplicate'']
           | Inl e \<Rightarrow> False)
    | Inl e \<Rightarrow> False)"
  by code_simp

subsection \<open>A file missing from a locale\<close>

text \<open>
  Claim C5 (the code departs from it).  The source file \<^verbatim>\<open>en/a.ftl\<close> has no counterpart in
  \<^verbatim>\<open>fr\<close>.  With the resource comment \<^verbatim>\<open>@diagnostic disable missing-file\<close> the warning
  \<^verbatim>\<open>missing-file\<close> is recorded all the same; with \<^verbatim>\<open>@diagnostic enable missing-file\<close> it is
  suppressed.
\<close>

theorem missing_file_with_disable_annotation:
  "(case processCollection (ex_runtime_missing ''disable'') ex_analyzer
           (ex_collection [ex_group ''en'' [''a'', ''b''], ex_group ''fr'' [''b'']]) of
      Inr (an, c) \<Rightarrow> map message (getDiagnosticsForUri an ''file:///base/strings/en/a.ftl'')
    | Inl e \<Rightarrow> []) = [''File /base/strings/fr/a.ftl is missing'']
   \<and> (case processCollection (ex_runtime_missing ''enable'') ex_analyzer
           (ex_collection [ex_group ''en'' [''a'', ''b''], ex_group ''fr'' [''b'']]) of
      Inr (an, c) \<Rightarrow> map message (getDiagnosticsForUri an ''file:///base/strings/en/a.ftl'')
    | Inl e \<Rightarrow> [''error'']) = []"
  by code_simp

subsection \<open>Discovery\<close>

text \<open>A map filled with keys that are all new holds them in the order of their arrival.\<close>

lemma update_fresh: "k \<notin> fst ` set al \<Longrightarrow> AList.update k v al = al @ [(k, v)]"
  by (induction al) auto

lemma fold_update_fresh:
  "distinct (map fst acc @ map key xs) \<Longrightarrow>
   fold (\<lambda>x fs. AList.update (key x) (vl x) fs) xs acc = acc @ map (\<lambda>x. (key x, vl x)) xs"
proof (induction xs arbitrary: acc)
  case Nil
  then show ?case by simp
next
  case (Cons x xs)
  have f: "key x \<notin> fst ` set acc"
    using Cons.prems by auto
  have "fold (\<lambda>x fs. AList.update (key x) (vl x) fs) (x # xs) acc =
        fold (\<lambda>x fs. AList.update (key x) (vl x) fs) xs (acc @ [(key x, vl x)])"
    by (simp add: update_fresh [OF f])
  also have "\<dots> = (acc @ [(key x, vl x)]) @ map (\<lambda>x. (key x, vl x)) xs"
    by (rule Cons.IH) (use Cons.prems in auto)
  finally show ?case by simp
qed

lemma takeWhile_segment:
  "c \<notin> set n \<Longrightarrow> r = [] \<or> hd r = c \<Longrightarrow> takeWhile (\<lambda>x. x \<noteq> c) (n @ r) = n"
  by (induction n) (cases r; auto)+

lemma segment_eq:
  assumes "CHR ''/'' \<notin> set n" "CHR ''/'' \<notin> set m"
    and "r = [] \<or> hd r = CHR ''/''" "s = [] \<or> hd s = CHR ''/''"
    and "n @ r = m @ s"
  shows "n = m \<and> r = s"
proof -
  have a: "takeWhile (\<lambda>c. c \<noteq> CHR ''/'') (n @ r) = n"
    using assms(1,3) by (rule takeWhile_segment)
  have b: "takeWhile (\<lambda>c. c \<noteq> CHR ''/'') (m @ s) = m"
    using assms(2,4) by (rule takeWhile_segment)
  have "n = m" using a b assms(5) by simp
  then show ?thesis using assms(5) by simp
qed

lemma segments_head:
  "concat (map (\<lambda>n. ''/'' @ n) p) = [] \<or> hd (concat (map (\<lambda>n. ''/'' @ n) p)) = CHR ''/''"
  by (cases p) auto

lemma segments_inj:
  "\<forall>n\<in>set p. validName n \<Longrightarrow> \<forall>n\<in>set q. validName n \<Longrightarrow>
   concat (map (\<lambda>n. ''/'' @ n) p) = concat (map (\<lambda>n. ''/'' @ n) q) \<Longrightarrow> p = q"
proof (induction p arbitrary: q)
  case Nil
  then show ?case by (cases q) auto
next
  case (Cons n p)
  show ?case
  proof (cases q)
    case Nil
    then show ?thesis using Cons.prems by auto
  next
    case (Cons m q')
    have e: "n @ concat (map (\<lambda>n. ''/'' @ n) p) = m @ concat (map (\<lambda>n. ''/'' @ n) q')"
      using Cons.prems(3) Cons by simp
    have "n = m \<and> concat (map (\<lambda>n. ''/'' @ n) p) = concat (map (\<lambda>n. ''/'' @ n) q')"
      using Cons.prems(1,2) Cons
      by (intro segment_eq [OF _ _ segments_head segments_head e]) (auto simp: validName_def)
    then show ?thesis
      using Cons.IH [of q'] Cons.prems(1,2) Cons by auto
  qed
qed

lemma fileUri_inj:
  "\<forall>n\<in>set p. validName n \<Longrightarrow> \<forall>n\<in>set q. validName n \<Longrightarrow>
   fileUri basePath p = fileUri basePath q \<Longrightarrow> p = q"
  by (rule segments_inj) (auto simp: fileUri_def pathToFileURL_def absolutePath_def)

lemma lookupDir_append:
  "lookupDir es p = Some ds \<Longrightarrow> lookupDir es (p @ q) = lookupDir ds q"
  by (induction es p rule: lookupDir.induct) (auto split: option.splits Dirent.splits)

lemma find_distinct:
  "distinct (map dirent_name es) \<Longrightarrow> e \<in> set es \<Longrightarrow>
   find (\<lambda>x. dirent_name x = dirent_name e) es = Some e"
  by (induction es) (auto simp: image_iff)

lemma lookupDir_child:
  assumes "lookupDir root cur = Some es" "distinct (map dirent_name es)" "Directory n cs \<in> set es"
  shows "lookupDir root (cur @ [n]) = Some cs"
  using lookupDir_append [OF assms(1), of "[n]"] find_distinct [OF assms(2,3)] by simp

lemma find_SomeD: "find P xs = Some x \<Longrightarrow> P x \<and> x \<in> set xs"
  by (induction xs) (auto split: if_splits)

lemma lookupDir_parent:
  "lookupDir root (G @ [l]) = Some cs \<Longrightarrow>
   \<exists>ges. lookupDir root G = Some ges \<and> Directory l cs \<in> set ges"
proof (induction G arbitrary: root)
  case Nil
  then show ?case
    by (auto split: option.splits Dirent.splits dest!: find_SomeD)
next
  case (Cons g G)
  then show ?case
    by (auto split: option.splits Dirent.splits)
qed

lemma snapshot_entry:
  "snapshot es \<Longrightarrow> e \<in> set es \<Longrightarrow> validName (dirent_name e)"
  by (cases e) (auto simp: snapshot_def list_all_iff)

lemma snapshot_children:
  "snapshot es \<Longrightarrow> Directory n cs \<in> set es \<Longrightarrow> snapshot cs"
  by (auto simp: snapshot_def list_all_iff)

lemma snapshot_lookup:
  "snapshot root \<Longrightarrow> lookupDir root p = Some es \<Longrightarrow> snapshot es"
proof (induction root p rule: lookupDir.induct)
  case (1 es)
  then show ?case by simp
next
  case (2 es n p)
  then show ?case
    by (auto split: option.splits Dirent.splits dest!: find_SomeD dest: snapshot_children)
qed

lemma valid_lookup:
  "snapshot root \<Longrightarrow> lookupDir root p = Some es \<Longrightarrow> \<forall>n\<in>set p. validName n"
proof (induction root p rule: lookupDir.induct)
  case (1 es)
  then show ?case by simp
next
  case (2 es n p)
  then show ?case
    by (auto split: option.splits Dirent.splits dest!: find_SomeD
             dest: snapshot_children snapshot_entry)
qed

lemma reachableFiles_iff:
  "p \<in> set (reachableFiles cur es) \<longleftrightarrow>
     (\<exists>n. File n \<in> set es \<and> isFtlName n \<and> p = cur @ [n])
     \<or> (\<exists>n cs. Directory n cs \<in> set es \<and> \<not> startsWith n ''.'' \<and>
                p \<in> set (reachableFiles (cur @ [n]) cs))"
proof (induction es)
  case Nil
  then show ?case by simp
next
  case (Cons e es)
  then show ?case by (cases e) auto
qed

text \<open>The URIs of a collection are those of the paths two levels below its directory.\<close>

lemma collectionPaths_iff:
  "p \<in> set (collectionPaths G ges) \<longleftrightarrow>
     (\<exists>l fs f. Directory l fs \<in> set ges \<and> f \<in> set fs \<and> p = G @ [l, dirent_name f])"
  unfolding collectionPaths_def
  by (auto split: Dirent.splits)

lemma distinct_collectionPaths:
  "snapshot ges \<Longrightarrow> distinct (collectionPaths G ges)"
proof (induction ges)
  case Nil
  then show ?case by (simp add: collectionPaths_def)
next
  case (Cons e ges)
  have s: "snapshot ges"
    using Cons.prems by (simp add: snapshot_def)
  have r: "distinct (collectionPaths G ges)"
    by (rule Cons.IH [OF s])
  show ?case
  proof (cases e)
    case (Directory l fs)
    have d: "distinct (map dirent_name fs)"
      using Cons.prems Directory by (simp add: snapshot_def)
    have a: "distinct (map (\<lambda>f. G @ [l, dirent_name f]) fs)"
      using d by (simp add: distinct_map inj_on_def)
    have n: "l \<notin> dirent_name ` set ges"
      using Cons.prems Directory by (simp add: snapshot_def)
    have b: "set (map (\<lambda>f. G @ [l, dirent_name f]) fs) \<inter> set (collectionPaths G ges) = {}"
      using n by (auto simp: collectionPaths_iff image_iff) force
    have "collectionPaths G (e # ges) = map (\<lambda>f. G @ [l, dirent_name f]) fs @ collectionPaths G ges"
      using Directory by (simp add: collectionPaths_def)
    then show ?thesis
      using a b r by simp
  qed (use r in \<open>simp_all add: collectionPaths_def\<close>)
qed

lemma valid_collectionPaths:
  assumes "snapshot ges" "\<forall>n\<in>set G. validName n" "p \<in> set (collectionPaths G ges)"
  shows "\<forall>n\<in>set p. validName n"
proof -
  obtain l fs f where e: "Directory l fs \<in> set ges" "f \<in> set fs" "p = G @ [l, dirent_name f]"
    using assms(3) by (auto simp: collectionPaths_iff)
  have "validName l"
    using snapshot_entry [OF assms(1) e(1)] by simp
  moreover have "validName (dirent_name f)"
    using snapshot_entry [OF snapshot_children [OF assms(1) e(1)] e(2)] .
  ultimately show ?thesis
    using assms(2) e(3) by auto
qed

lemma uri_createFileRecord [simp]:
  "uri (path (createFileRecord p basePath None)) = fileUri basePath p"
  by (simp add: createFileRecord_def getPathInfo_def fileUri_def Let_def)

lemma localeGroup_uris:
  assumes "snapshot cs" "\<forall>n\<in>set G. validName n" "validName l"
  shows "concat (map (\<lambda>(k, g). map fst (files g)) (localeGroup basePath G (Directory l cs))) =
         map (\<lambda>f. fileUri basePath (G @ [l, dirent_name f])) cs"
proof -
  have inj: "inj_on (\<lambda>n. fileUri basePath (G @ [l, n])) (dirent_name ` set cs)"
  proof (rule inj_onI)
    fix a b
    assume a: "a \<in> dirent_name ` set cs" and b: "b \<in> dirent_name ` set cs"
      and e: "fileUri basePath (G @ [l, a]) = fileUri basePath (G @ [l, b])"
    have "validName a" "validName b"
      using a b snapshot_entry [OF assms(1)] by auto
    then have "G @ [l, a] = G @ [l, b]"
      using assms(2,3) by (intro fileUri_inj [OF _ _ e]) auto
    then show "a = b" by simp
  qed
  have "distinct (map (\<lambda>n. fileUri basePath (G @ [l, n])) (map dirent_name cs))"
    using assms(1) inj by (subst distinct_map) (simp add: snapshot_def)
  then have d: "distinct (map (\<lambda>x. uri (path x))
                   (map (\<lambda>f. createFileRecord (G @ [l, dirent_name f]) basePath None) cs))"
    by (simp add: comp_def)
  have f: "fold (\<lambda>f fs. AList.update (uri (path f)) f fs) xs [] =
           [] @ map (\<lambda>x. (uri (path x), x)) xs"
    if "distinct (map (\<lambda>x. uri (path x)) xs)" for xs :: "FileInfo list"
    by (rule fold_update_fresh) (use that in simp)
  show ?thesis
    using f [OF d] by (simp add: localeGroup_def comp_def)
qed

lemma localeGroup_keys:
  "fst ` set (localeGroup basePath G e) \<subseteq> {dirent_name e}"
  by (auto simp: localeGroup_def split: Dirent.splits if_splits)

lemma distinct_localeGroups:
  "distinct (map dirent_name es) \<Longrightarrow>
   distinct (map fst (concat (map (localeGroup basePath G) es)))"
proof (induction es)
  case Nil
  then show ?case by simp
next
  case (Cons e es)
  define rest where "rest = map fst (concat (map (localeGroup basePath G) es))"
  have a: "distinct (map fst (localeGroup basePath G e))"
    by (auto simp: localeGroup_def split: Dirent.splits)
  have k: "set (map fst (localeGroup basePath G e)) \<subseteq> {dirent_name e}"
    using localeGroup_keys [of basePath G e] by simp
  have b: "set rest \<subseteq> dirent_name ` set es"
    unfolding rest_def using localeGroup_keys [of basePath G] by fastforce
  have c: "dirent_name e \<notin> dirent_name ` set es"
    using Cons.prems by simp
  have d: "set (map fst (localeGroup basePath G e)) \<inter> set rest = {}"
    using k b c by blast
  have r: "distinct rest"
    unfolding rest_def using Cons.IH Cons.prems by simp
  have "map fst (concat (map (localeGroup basePath G) (e # es))) =
        map fst (localeGroup basePath G e) @ rest"
    by (simp add: rest_def)
  then show ?case
    using a d r by (simp only: distinct_append)
qed

lemma getCollection_uris:
  assumes "snapshot root" "getCollection root basePath G = Some c"
  shows "\<exists>ges. lookupDir root G = Some ges
           \<and> collectionUris c = map (fileUri basePath) (collectionPaths G ges)"
proof -
  obtain ges where lk: "lookupDir root G = Some ges"
    and dirs: "list_all isDirectory ges"
    and c: "groups c = fold (\<lambda>(k, g) gs. AList.update k g gs)
                         (concat (map (localeGroup basePath G) ges)) []"
    using assms(2) by (auto simp: getCollection_def split: option.splits if_splits)
  have s: "snapshot ges"
    by (rule snapshot_lookup [OF assms(1) lk])
  have v: "\<forall>n\<in>set G. validName n"
    by (rule valid_lookup [OF assms(1) lk])
  have "distinct (map fst (concat (map (localeGroup basePath G) ges)))"
    using s by (intro distinct_localeGroups) (simp add: snapshot_def)
  then have g: "groups c = concat (map (localeGroup basePath G) ges)"
    using fold_update_fresh [where acc = "[]" and key = fst and vl = snd
        and xs = "concat (map (localeGroup basePath G) ges)"]
    by (simp add: c case_prod_unfold)
  have e: "concat (map (\<lambda>(k, g). map fst (files g)) (localeGroup basePath G e)) =
           map (fileUri basePath)
             (case e of Directory l fs \<Rightarrow> map (\<lambda>f. G @ [l, dirent_name f]) fs | _ \<Rightarrow> [])"
    if "e \<in> set ges" for e
  proof (cases e)
    case (Directory l cs)
    have sc: "snapshot cs"
      using snapshot_children [OF s] that Directory by blast
    have vl: "validName l"
      using snapshot_entry [OF s that] Directory by simp
    show ?thesis
      using localeGroup_uris [OF sc v vl, where basePath = basePath] Directory by (simp add: comp_def)
  qed (simp_all add: localeGroup_def)
  have "concat (map (\<lambda>(k, g). map fst (files g)) (concat (map (localeGroup basePath G) es))) =
        map (fileUri basePath) (collectionPaths G es)" if "set es \<subseteq> set ges" for es
    using that by (induction es) (simp_all add: collectionPaths_def e)
  then have "collectionUris c = map (fileUri basePath) (collectionPaths G ges)"
    by (simp add: collectionUris_def g)
  then show ?thesis
    using lk by simp
qed

text \<open>
  What every step of the first loop keeps, the walk keeps: the walk only comes to directories
  of the tree.
\<close>

lemma visited_root: "visited root [] root"
  by (simp add: visited_def)

lemma visited_child:
  assumes "snapshot root" "visited root cur listing" "Directory n es \<in> set listing"
    "\<not> startsWith n ''.''"
  shows "visited root (cur @ [n]) es"
proof -
  have l: "lookupDir root cur = Some listing"
    using assms(2) by (simp add: visited_def)
  have d: "distinct (map dirent_name listing)"
    using snapshot_lookup [OF assms(1) l] by (simp add: snapshot_def)
  have "set (reachableFiles (cur @ [n]) es) \<subseteq> set (reachableFiles cur listing)"
    using assms(3,4) reachableFiles_iff [of _ cur listing] by blast
  then show ?thesis
    using lookupDir_child [OF l d assms(3)] assms(2) by (auto simp: visited_def)
qed

lemma visited_file:
  assumes "visited root cur listing" "File n \<in> set listing" "isFtlName n"
  shows "cur @ [n] \<in> set (reachableFiles [] root)"
proof -
  have "cur @ [n] \<in> set (reachableFiles cur listing)"
    using assms(2,3) reachableFiles_iff [of "cur @ [n]" cur listing] by blast
  then show ?thesis
    using assms(1) by (auto simp: visited_def)
qed

lemma reachable_valid:
  "snapshot es \<Longrightarrow> \<forall>n\<in>set cur. validName n \<Longrightarrow> p \<in> set (reachableFiles cur es) \<Longrightarrow>
   \<forall>n\<in>set p. validName n"
proof (induction cur es rule: reachableFiles.induct)
  case (1 cur)
  then show ?case by simp
next
  case (2 cur n rest)
  have s: "snapshot rest" and v: "validName n"
    using "2.prems"(1) by (simp_all add: snapshot_def)
  consider (a) "p = cur @ [n]" | (b) "p \<in> set (reachableFiles cur rest)"
    using "2.prems"(3) by (auto split: if_splits)
  then show ?case
  proof cases
    case a
    then show ?thesis using v "2.prems"(2) by simp
  next
    case b
    show ?thesis by (rule "2.IH" [OF s "2.prems"(2) b])
  qed
next
  case (3 cur n es rest)
  have s: "snapshot rest" and v: "validName n" and c: "snapshot es"
    using "3.prems"(1) by (simp_all add: snapshot_def)
  have w: "\<forall>m\<in>set (cur @ [n]). validName m"
    using v "3.prems"(2) by simp
  consider (a) "\<not> startsWith n ''.''" "p \<in> set (reachableFiles (cur @ [n]) es)"
    | (b) "p \<in> set (reachableFiles cur rest)"
    using "3.prems"(3) by (auto split: if_splits)
  then show ?case
  proof cases
    case a
    show ?thesis by (rule "3.IH"(1) [OF a(1) c w a(2)])
  next
    case b
    show ?thesis by (rule "3.IH"(2) [OF s "3.prems"(2) b])
  qed
next
  case (4 cur n rest)
  have s: "snapshot rest"
    using "4.prems"(1) by (simp_all add: snapshot_def)
  have b: "p \<in> set (reachableFiles cur rest)"
    using "4.prems"(3) by simp
  show ?case by (rule "4.IH" [OF s "4.prems"(2) b])
qed

lemma fold_rule:
  "(\<And>e ctx. e \<in> set es \<Longrightarrow> I ctx \<Longrightarrow> I (f e ctx)) \<Longrightarrow> I ctx \<Longrightarrow> I (fold f es ctx)"
  by (induction es arbitrary: ctx) auto

lemma walk_rule:
  "snapshot root \<Longrightarrow>
   \<forall>cur listing e ctx. visited root cur listing \<longrightarrow> e \<in> set listing \<longrightarrow> I ctx
      \<longrightarrow> I (discoverFile root basePath cur e ctx) \<Longrightarrow>
   visited root cur entries \<Longrightarrow> I ctx \<Longrightarrow> I (discoverInternal root basePath cur entries ctx)"
  "snapshot root \<Longrightarrow>
   \<forall>cur listing e ctx. visited root cur listing \<longrightarrow> e \<in> set listing \<longrightarrow> I ctx
      \<longrightarrow> I (discoverFile root basePath cur e ctx) \<Longrightarrow>
   visited root cur listing \<Longrightarrow> set rest \<subseteq> set listing \<Longrightarrow> I ctx \<Longrightarrow>
   I (discoverSubdirs root basePath cur rest ctx)"
proof (induction root basePath cur entries ctx and root basePath cur rest ctx
    arbitrary: and listing rule: discoverInternal_discoverSubdirs.induct)
  case (1 root basePath cur entries ctx)
  have "I (fold (discoverFile root basePath cur) entries ctx)"
    using "1.prems"(2,3,4) by (intro fold_rule [where I = I]) auto
  then show ?case
    using "1.IH" [OF "1.prems"(1,2,3)] by simp
next
  case (2 root basePath cur ctx)
  then show ?case by simp
next
  case (3 root basePath cur n es rest ctx)
  have m: "Directory n es \<in> set listing" and r: "set rest \<subseteq> set listing"
    using "3.prems"(4) by auto
  show ?case
  proof (cases "startsWith n ''.''")
    case True
    then show ?thesis
      using "3.IH"(2) [OF "3.prems"(1,2,3) r] "3.prems"(5) by simp
  next
    case False
    have "I (discoverInternal root basePath (cur @ [n]) es ctx)"
      using "3.IH"(1) [OF False "3.prems"(1,2) visited_child [OF "3.prems"(1,3) m False] "3.prems"(5)] .
    then show ?thesis
      using "3.IH"(2) [OF "3.prems"(1,2,3) r] False by simp
  qed
next
  case (4 root basePath cur n rest ctx)
  then show ?case by simp
next
  case (5 root basePath cur n rest ctx)
  then show ?case by simp
qed

lemma discoverFile_collectionOf:
  "discoverFile root basePath cur (File n) ctx =
     (if \<not> isFtlName n then ctx
      else if fileUri basePath (cur @ [n]) \<in> set (uris ctx) then ctx
      else
        (case collectionOf root basePath (cur @ [n]) of
           None \<Rightarrow>
             ctx\<lparr>uris := set_add (fileUri basePath (cur @ [n])) (uris ctx),
                 ungrouped := (ungrouped ctx)\<lparr>files :=
                   AList.update (fileUri basePath (cur @ [n]))
                     (createFileRecord (cur @ [n]) basePath (Some (fileUri basePath (cur @ [n])))) (files (ungrouped ctx))\<rparr>\<rparr>
         | Some c \<Rightarrow>
             ctx\<lparr>uris := fold set_add (collectionUris c) (uris ctx),
                 collections := collections ctx @ [c]\<rparr>))"
  by (simp add: discoverFile_def collectionOf_def fileUri_def set_has_def Let_def
      split: option.splits)

lemma discoverFile_other:
  "discoverFile root basePath cur (Directory n es) ctx = ctx"
  "discoverFile root basePath cur (Other n) ctx = ctx"
  by (simp_all add: discoverFile_def)

lemma set_fold_set_add: "set (fold set_add xs s) = set xs \<union> set s"
  by (induction xs arbitrary: s) (auto simp: set_add_def)

lemma collectionOf_cong:
  "butlast p \<noteq> [] \<Longrightarrow> butlast q \<noteq> [] \<Longrightarrow> butlast (butlast p) = butlast (butlast q) \<Longrightarrow>
   collectionOf root basePath p = collectionOf root basePath q"
  by (simp add: collectionOf_def dirname_def)

lemma collectionOf_parent:
  "collectionOf root basePath p = Some c \<Longrightarrow>
   butlast p \<noteq> [] \<and> getCollection root basePath (butlast (butlast p)) = Some c"
  by (auto simp: collectionOf_def dirname_def isPathInside_def relativeTo_def startsWith_def
      split: if_splits)

lemma collection_files:
  assumes "snapshot root" "collectionOf root basePath p = Some c"
  shows "distinct (collectionUris c)"
    and "\<forall>u\<in>set (collectionUris c).
           \<exists>q. u = fileUri basePath q \<and> (\<forall>n\<in>set q. validName n) \<and> butlast q \<noteq> []
                \<and> butlast (butlast q) = butlast (butlast p)"
proof -
  define G where "G = butlast (butlast p)"
  have g: "getCollection root basePath G = Some c"
    using collectionOf_parent [OF assms(2)] by (simp add: G_def)
  obtain ges where lk: "lookupDir root G = Some ges"
    and u: "collectionUris c = map (fileUri basePath) (collectionPaths G ges)"
    using getCollection_uris [OF assms(1) g] by blast
  have s: "snapshot ges"
    by (rule snapshot_lookup [OF assms(1) lk])
  have v: "\<forall>n\<in>set G. validName n"
    by (rule valid_lookup [OF assms(1) lk])
  have w: "\<forall>n\<in>set q. validName n" if "q \<in> set (collectionPaths G ges)" for q
    by (rule valid_collectionPaths [OF s v that])
  have "inj_on (fileUri basePath) (set (collectionPaths G ges))"
    by (rule inj_onI) (use w fileUri_inj in blast)
  then show "distinct (collectionUris c)"
    using distinct_collectionPaths [OF s, of G] by (simp add: u distinct_map)
  show "\<forall>u\<in>set (collectionUris c).
           \<exists>q. u = fileUri basePath q \<and> (\<forall>n\<in>set q. validName n) \<and> butlast q \<noteq> []
                \<and> butlast (butlast q) = butlast (butlast p)"
  proof
    fix x
    assume "x \<in> set (collectionUris c)"
    then obtain q where q: "q \<in> set (collectionPaths G ges)" "x = fileUri basePath q"
      by (auto simp: u)
    obtain l fs f where "q = G @ [l, dirent_name f]"
      using q(1) by (auto simp: collectionPaths_iff)
    then have "butlast q \<noteq> [] \<and> butlast (butlast q) = butlast (butlast p)"
      by (simp add: butlast_append G_def)
    then show "\<exists>q. x = fileUri basePath q \<and> (\<forall>n\<in>set q. validName n) \<and> butlast q \<noteq> []
                \<and> butlast (butlast q) = butlast (butlast p)"
      using q(2) w [OF q(1)] by blast
  qed
qed

lemma trigger_in_collection:
  assumes "snapshot root" "visited root cur listing" "File n \<in> set listing"
    "collectionOf root basePath (cur @ [n]) = Some c"
  shows "fileUri basePath (cur @ [n]) \<in> set (collectionUris c)"
proof -
  define G where "G = butlast cur"
  have c: "cur \<noteq> []" and g: "getCollection root basePath G = Some c"
    using collectionOf_parent [OF assms(4)] by (simp_all add: G_def)
  have cur: "cur = G @ [last cur]"
    using c by (simp add: G_def)
  have "lookupDir root (G @ [last cur]) = Some listing"
    using assms(2) cur by (simp add: visited_def)
  then obtain ges where lk: "lookupDir root G = Some ges" and m: "Directory (last cur) listing \<in> set ges"
    using lookupDir_parent by blast
  obtain ges' where "lookupDir root G = Some ges'"
    and u: "collectionUris c = map (fileUri basePath) (collectionPaths G ges')"
    using getCollection_uris [OF assms(1) g] by blast
  then have e: "ges' = ges"
    using lk by simp
  have "G @ [last cur, dirent_name (File n)] \<in> set (collectionPaths G ges)"
    unfolding collectionPaths_iff using m assms(3) by blast
  then have "cur @ [n] \<in> set (collectionPaths G ges)"
    using cur by (metis append_Cons append_Nil append_assoc dirent_name.simps(1))
  then show ?thesis
    by (simp add: u e)
qed

text \<open>A step of the first loop keeps the placement.\<close>

lemma placement_discoverFile:
  assumes snap: "snapshot root" and vis: "visited root cur listing" and e: "e \<in> set listing"
    and inv: "placement root basePath ctx"
  shows "placement root basePath (discoverFile root basePath cur e ctx)"
proof (cases e)
  case (File n)
  define p where "p = cur @ [n]"
  define u where "u = fileUri basePath p"
  show ?thesis
  proof (cases "isFtlName n \<and> u \<notin> set (uris ctx)")
    case False
    then show ?thesis
      using inv File by (auto simp: discoverFile_collectionOf u_def p_def)
  next
    case True
    have r: "p \<in> set (reachableFiles [] root)"
      using visited_file [OF vis] e File True by (simp add: p_def)
    have fresh: "u \<notin> set (placedUris ctx)"
      using True inv by (simp add: placement_def)
    show ?thesis
    proof (cases "collectionOf root basePath p")
      case None
      define ctx' where "ctx' = ctx\<lparr>uris := set_add u (uris ctx),
        ungrouped := (ungrouped ctx)\<lparr>files :=
          AList.update u (createFileRecord p basePath (Some u)) (files (ungrouped ctx))\<rparr>\<rparr>"
      have d: "discoverFile root basePath cur e ctx = ctx'"
        using File True None by (simp add: discoverFile_collectionOf ctx'_def u_def p_def)
      have k: "map fst (files (ungrouped ctx')) = map fst (files (ungrouped ctx)) @ [u]"
        using fresh by (simp add: ctx'_def update_keys placedUris_def)
      have c: "collections ctx' = collections ctx"
        by (simp add: ctx'_def)
      have 1: "distinct (placedUris ctx')"
        using fresh inv unfolding placedUris_def placement_def k c by auto
      have 2: "set (uris ctx') = set (placedUris ctx')"
      proof -
        have a: "set (uris ctx') = insert u (set (uris ctx))"
          by (auto simp: ctx'_def set_add_def)
        have b: "set (placedUris ctx') = insert u (set (placedUris ctx))"
          unfolding placedUris_def k c by auto
        show ?thesis
          using inv a b by (simp add: placement_def)
      qed
      have 3: "\<forall>c\<in>set (collections ctx').
            \<exists>p\<in>set (reachableFiles [] root). collectionOf root basePath p = Some c"
        using inv by (simp add: placement_def c)
      have 4: "\<forall>u\<in>set (map fst (files (ungrouped ctx'))).
            \<exists>p\<in>set (reachableFiles [] root).
              u = fileUri basePath p \<and> collectionOf root basePath p = None"
      proof
        fix x
        assume "x \<in> set (map fst (files (ungrouped ctx')))"
        then consider "x \<in> set (map fst (files (ungrouped ctx)))" | "x = u"
          unfolding k by auto
        then show "\<exists>p\<in>set (reachableFiles [] root).
              x = fileUri basePath p \<and> collectionOf root basePath p = None"
        proof cases
          case 1
          then show ?thesis using inv unfolding placement_def by blast
        next
          case 2
          then show ?thesis using r None u_def by blast
        qed
      qed
      show ?thesis
        unfolding d placement_def using 1 2 3 4 by blast
    next
      case (Some c)
      define ctx' where "ctx' = ctx\<lparr>uris := fold set_add (collectionUris c) (uris ctx),
        collections := collections ctx @ [c]\<rparr>"
      have d: "discoverFile root basePath cur e ctx = ctx'"
        using File True Some by (simp add: discoverFile_collectionOf ctx'_def u_def p_def)
      have pl: "placedUris ctx' = placedUris ctx @ collectionUris c"
        by (simp add: placedUris_def ctx'_def)
      have dc: "distinct (collectionUris c)"
        by (rule collection_files(1) [OF snap Some])
      have t: "u \<in> set (collectionUris c)"
        using trigger_in_collection [OF snap vis, of n basePath c] e File Some
        by (simp add: u_def p_def)
      have bp: "butlast p \<noteq> []"
        using collectionOf_parent [OF Some] by simp
      have disj: "set (placedUris ctx) \<inter> set (collectionUris c) = {}"
      proof (rule ccontr)
        assume "set (placedUris ctx) \<inter> set (collectionUris c) \<noteq> {}"
        then obtain x where x1: "x \<in> set (placedUris ctx)" and x2: "x \<in> set (collectionUris c)"
          by blast
        obtain q where q: "x = fileUri basePath q" "\<forall>n\<in>set q. validName n" "butlast q \<noteq> []"
          "butlast (butlast q) = butlast (butlast p)"
          using collection_files(2) [OF snap Some] x2 by blast
        have cq: "collectionOf root basePath q = Some c"
          using collectionOf_cong [OF q(3) bp q(4)] Some by simp
        consider (ung) "x \<in> set (map fst (files (ungrouped ctx)))"
          | (col) c' where "c' \<in> set (collections ctx)" "x \<in> set (collectionUris c')"
          using x1 by (auto simp: placedUris_def)
        then show False
        proof cases
          case ung
          then obtain p' where p': "p' \<in> set (reachableFiles [] root)" "x = fileUri basePath p'"
            "collectionOf root basePath p' = None"
            using inv unfolding placement_def by blast
          have "\<forall>n\<in>set p'. validName n"
            using reachable_valid [OF snap _ p'(1)] by simp
          then have "q = p'"
            using fileUri_inj [OF q(2)] q(1) p'(2) by blast
          then show False
            using cq p'(3) by simp
        next
          case col
          obtain p' where p': "p' \<in> set (reachableFiles [] root)"
            "collectionOf root basePath p' = Some c'"
            using inv col(1) unfolding placement_def by blast
          obtain q' where q': "x = fileUri basePath q'" "\<forall>n\<in>set q'. validName n"
            "butlast q' \<noteq> []" "butlast (butlast q') = butlast (butlast p')"
            using collection_files(2) [OF snap p'(2)] col(2) by blast
          have "q = q'"
            using fileUri_inj [OF q(2) q'(2)] q(1) q'(1) by blast
          then have "butlast (butlast p') = butlast (butlast q)"
            using q'(4) by simp
          moreover have "butlast p' \<noteq> []"
            using collectionOf_parent [OF p'(2)] by simp
          ultimately have "collectionOf root basePath p' = collectionOf root basePath q"
            using q(3) by (intro collectionOf_cong)
          then have "c' = c"
            using cq p'(2) by simp
          then have "u \<in> set (placedUris ctx)"
            using t col(1) by (auto simp: placedUris_def)
          then show False
            using fresh by simp
        qed
      qed
      have 1: "distinct (placedUris ctx')"
        using inv dc disj by (simp add: pl placement_def)
      have 2: "set (uris ctx') = set (placedUris ctx')"
      proof -
        have "set (uris ctx') = set (collectionUris c) \<union> set (uris ctx)"
          by (simp add: ctx'_def set_fold_set_add)
        then show ?thesis
          using inv by (auto simp: pl placement_def)
      qed
      have 3: "\<forall>c\<in>set (collections ctx').
            \<exists>p\<in>set (reachableFiles [] root). collectionOf root basePath p = Some c"
      proof
        fix x
        assume "x \<in> set (collections ctx')"
        then consider "x \<in> set (collections ctx)" | "x = c"
          by (auto simp: ctx'_def)
        then show "\<exists>p\<in>set (reachableFiles [] root). collectionOf root basePath p = Some x"
        proof cases
          case 1
          then show ?thesis using inv unfolding placement_def by blast
        next
          case 2
          then show ?thesis using r Some by blast
        qed
      qed
      have 4: "\<forall>u\<in>set (map fst (files (ungrouped ctx'))).
            \<exists>p\<in>set (reachableFiles [] root).
              u = fileUri basePath p \<and> collectionOf root basePath p = None"
        using inv by (simp add: placement_def ctx'_def)
      show ?thesis
        unfolding d placement_def using 1 2 3 4 by blast
    qed
  qed
next
  case (Directory n es)
  then show ?thesis using inv by (simp add: discoverFile_other)
next
  case (Other n)
  then show ?thesis using inv by (simp add: discoverFile_other)
qed

lemma placement_discoverInternal:
  assumes "snapshot root" "visited root cur entries" "placement root basePath ctx"
  shows "placement root basePath (discoverInternal root basePath cur entries ctx)"
  using assms(1) _ assms(2,3)
  by (rule walk_rule(1) [where I = "placement root basePath"])
    (use placement_discoverFile [OF assms(1)] in blast)

text \<open>
  The claimed URIs only grow, the walk claims every reachable file, and a walk over files that
  are all claimed changes nothing.
\<close>

lemma uris_mono_discoverFile:
  "S \<subseteq> set (uris ctx) \<Longrightarrow> S \<subseteq> set (uris (discoverFile root basePath cur e ctx))"
  by (cases e)
    (auto simp: discoverFile_collectionOf discoverFile_other set_add_def set_fold_set_add
      split: option.splits)

lemma uris_mono_discoverSubdirs:
  assumes "snapshot root" "visited root cur listing" "set rest \<subseteq> set listing"
    "S \<subseteq> set (uris ctx)"
  shows "S \<subseteq> set (uris (discoverSubdirs root basePath cur rest ctx))"
  using assms(1) _ assms(2,3,4)
  by (rule walk_rule(2) [where I = "\<lambda>ctx. S \<subseteq> set (uris ctx)"])
    (use uris_mono_discoverFile in blast)

lemma covers_discoverFile:
  assumes "snapshot root" "visited root cur listing" "File n \<in> set listing" "isFtlName n"
  shows "fileUri basePath (cur @ [n]) \<in> set (uris (discoverFile root basePath cur (File n) ctx))"
  using assms(4) trigger_in_collection [OF assms(1,2,3), of basePath]
  by (auto simp: discoverFile_collectionOf set_add_def set_fold_set_add split: option.splits)

lemma covers_fold:
  assumes "snapshot root" "visited root cur listing"
  shows "set es \<subseteq> set listing \<Longrightarrow> File n \<in> set es \<Longrightarrow> isFtlName n \<Longrightarrow>
         fileUri basePath (cur @ [n]) \<in> set (uris (fold (discoverFile root basePath cur) es ctx))"
proof (induction es arbitrary: ctx)
  case Nil
  then show ?case by simp
next
  case (Cons e es)
  show ?case
  proof (cases "File n \<in> set es")
    case True
    then show ?thesis
      using Cons.IH [of "discoverFile root basePath cur e ctx"] Cons.prems by simp
  next
    case False
    then have e: "e = File n"
      using Cons.prems(2) by simp
    have "{fileUri basePath (cur @ [n])} \<subseteq> set (uris (discoverFile root basePath cur e ctx))"
      using covers_discoverFile [OF assms, where n = n and basePath = basePath and ctx = ctx] Cons.prems e by simp
    then have "{fileUri basePath (cur @ [n])}
        \<subseteq> set (uris (fold (discoverFile root basePath cur) es (discoverFile root basePath cur e ctx)))"
      by (rule fold_rule [where I = "\<lambda>ctx. {fileUri basePath (cur @ [n])} \<subseteq> set (uris ctx)", rotated])
        (rule uris_mono_discoverFile)
    then show ?thesis by simp
  qed
qed

lemma covers_walk:
  "snapshot root \<Longrightarrow> visited root cur entries \<Longrightarrow>
   fileUri basePath ` set (reachableFiles cur entries)
     \<subseteq> set (uris (discoverInternal root basePath cur entries ctx))"
  "snapshot root \<Longrightarrow> visited root cur listing \<Longrightarrow> set rest \<subseteq> set listing \<Longrightarrow>
   Directory m cs \<in> set rest \<Longrightarrow> \<not> startsWith m ''.'' \<Longrightarrow>
   fileUri basePath ` set (reachableFiles (cur @ [m]) cs)
     \<subseteq> set (uris (discoverSubdirs root basePath cur rest ctx))"
proof (induction root basePath cur entries ctx and root basePath cur rest ctx
    arbitrary: and listing m cs rule: discoverInternal_discoverSubdirs.induct)
  case (1 root basePath cur entries ctx)
  define ctx1 where "ctx1 = fold (discoverFile root basePath cur) entries ctx"
  show ?case
  proof
    fix x
    assume "x \<in> fileUri basePath ` set (reachableFiles cur entries)"
    then obtain p where p: "p \<in> set (reachableFiles cur entries)" "x = fileUri basePath p"
      by blast
    consider (leaf) n where "File n \<in> set entries" "isFtlName n" "p = cur @ [n]"
      | (dir) n cs where "Directory n cs \<in> set entries" "\<not> startsWith n ''.''"
          "p \<in> set (reachableFiles (cur @ [n]) cs)"
      using p(1) reachableFiles_iff [of p cur entries] by blast
    then show "x \<in> set (uris (discoverInternal root basePath cur entries ctx))"
    proof cases
      case leaf
      have "{x} \<subseteq> set (uris ctx1)"
        using covers_fold [OF "1.prems"(1,2) _ leaf(1,2), where basePath = basePath and ctx = ctx] p(2) leaf(3)
        by (simp add: ctx1_def)
      then have "{x} \<subseteq> set (uris (discoverSubdirs root basePath cur entries ctx1))"
        using "1.prems" by (intro uris_mono_discoverSubdirs [where listing = entries]) auto
      then show ?thesis
        by (simp add: ctx1_def)
    next
      case dir
      show ?thesis
        using "1.IH" [OF "1.prems"(1,2) _ dir(1,2)] dir(3) p(2) by auto
    qed
  qed
next
  case (2 root basePath cur ctx)
  then show ?case by simp
next
  case (3 root basePath cur n es rest ctx)
  have mem: "Directory n es \<in> set listing" and r: "set rest \<subseteq> set listing"
    using "3.prems"(3) by auto
  show ?case
  proof (cases "Directory m cs \<in> set rest")
    case True
    show ?thesis
      using "3.IH"(2) [OF "3.prems"(1,2) r True "3.prems"(5)] by simp
  next
    case False
    then have e: "m = n" "cs = es"
      using "3.prems"(4) by auto
    define ctx2 where "ctx2 = discoverInternal root basePath (cur @ [n]) es ctx"
    have v: "visited root (cur @ [n]) es"
      using visited_child [OF "3.prems"(1,2) mem] "3.prems"(5) e by simp
    have "fileUri basePath ` set (reachableFiles (cur @ [n]) es) \<subseteq> set (uris ctx2)"
      unfolding ctx2_def using "3.IH"(1) [OF _ "3.prems"(1) v] "3.prems"(5) e by simp
    then have "fileUri basePath ` set (reachableFiles (cur @ [n]) es)
        \<subseteq> set (uris (discoverSubdirs root basePath cur rest ctx2))"
      by (rule uris_mono_discoverSubdirs [OF "3.prems"(1,2) r])
    then show ?thesis
      using "3.prems"(5) e by (simp add: ctx2_def)
  qed
next
  case (4 root basePath cur n rest ctx)
  then show ?case by simp
next
  case (5 root basePath cur n rest ctx)
  then show ?case by simp
qed

lemma fixed_fold:
  "\<forall>n. File n \<in> set es \<longrightarrow> isFtlName n \<longrightarrow> fileUri basePath (cur @ [n]) \<in> set (uris ctx) \<Longrightarrow>
   fold (discoverFile root basePath cur) es ctx = ctx"
proof (induction es)
  case Nil
  then show ?case by simp
next
  case (Cons e es)
  have "discoverFile root basePath cur e ctx = ctx"
    using Cons.prems by (cases e) (auto simp: discoverFile_collectionOf discoverFile_other)
  then show ?case
    using Cons by simp
qed

lemma fixed_walk:
  "fileUri basePath ` set (reachableFiles cur entries) \<subseteq> set (uris ctx) \<Longrightarrow>
   discoverInternal root basePath cur entries ctx = ctx"
  "fileUri basePath ` set (reachableFiles cur rest) \<subseteq> set (uris ctx) \<Longrightarrow>
   discoverSubdirs root basePath cur rest ctx = ctx"
proof (induction root basePath cur entries ctx and root basePath cur rest ctx
    rule: discoverInternal_discoverSubdirs.induct)
  case (1 root basePath cur entries ctx)
  have "\<forall>n. File n \<in> set entries \<longrightarrow> isFtlName n
          \<longrightarrow> fileUri basePath (cur @ [n]) \<in> set (uris ctx)"
    using "1.prems" reachableFiles_iff [of _ cur entries] by blast
  then have f: "fold (discoverFile root basePath cur) entries ctx = ctx"
    by (rule fixed_fold)
  show ?case
    using "1.IH" "1.prems" by (simp add: f)
next
  case (2 root basePath cur ctx)
  then show ?case by simp
next
  case (3 root basePath cur n es rest ctx)
  have r: "fileUri basePath ` set (reachableFiles cur rest) \<subseteq> set (uris ctx)"
    using "3.prems" by auto
  show ?case
  proof (cases "startsWith n ''.''")
    case True
    then show ?thesis
      using "3.IH"(2) r by simp
  next
    case False
    have "fileUri basePath ` set (reachableFiles (cur @ [n]) es) \<subseteq> set (uris ctx)"
      using "3.prems" False by auto
    then have "discoverInternal root basePath (cur @ [n]) es ctx = ctx"
      by (rule "3.IH"(1) [OF False])
    then show ?thesis
      using "3.IH"(2) r False by simp
  qed
next
  case (4 root basePath cur n rest ctx)
  then show ?case by (auto split: if_splits)
next
  case (5 root basePath cur n rest ctx)
  then show ?case by simp
qed

lemma placement_discover:
  assumes "snapshot root"
  shows "placement root basePath (discover root basePath)"
  unfolding discover_def
  by (rule placement_discoverInternal [OF assms visited_root])
    (simp add: placement_def placedUris_def)

lemma covers_discover:
  assumes "snapshot root"
  shows "fileUri basePath ` set (reachableFiles [] root) \<subseteq> set (uris (discover root basePath))"
  unfolding discover_def by (rule covers_walk(1) [OF assms visited_root])

lemma placed_collection:
  assumes snap: "snapshot root" and inv: "placement root basePath r"
    and p: "p \<in> set (reachableFiles [] root)"
    and c: "c \<in> set (collections r)" and u: "fileUri basePath p \<in> set (collectionUris c)"
  shows "collectionOf root basePath p = Some c"
proof -
  obtain p' where p': "p' \<in> set (reachableFiles [] root)" "collectionOf root basePath p' = Some c"
    using inv c unfolding placement_def by blast
  obtain q where q: "fileUri basePath p = fileUri basePath q" "\<forall>n\<in>set q. validName n"
    "butlast q \<noteq> []" "butlast (butlast q) = butlast (butlast p')"
    using collection_files(2) [OF snap p'(2)] u by blast
  have "\<forall>n\<in>set p. validName n"
    using reachable_valid [OF snap _ p] by simp
  then have "p = q"
    using fileUri_inj [OF _ q(2) q(1)] by blast
  moreover have "butlast p' \<noteq> []"
    using collectionOf_parent [OF p'(2)] by simp
  ultimately have "collectionOf root basePath p = collectionOf root basePath p'"
    using q(3,4) by (intro collectionOf_cong) auto
  then show ?thesis
    using p'(2) by simp
qed

lemma placed_ungrouped:
  assumes snap: "snapshot root" and inv: "placement root basePath r"
    and p: "p \<in> set (reachableFiles [] root)"
    and u: "fileUri basePath p \<in> set (map fst (files (ungrouped r)))"
  shows "collectionOf root basePath p = None"
proof -
  obtain p' where p': "p' \<in> set (reachableFiles [] root)" "fileUri basePath p = fileUri basePath p'"
    "collectionOf root basePath p' = None"
    using inv u unfolding placement_def by blast
  have "\<forall>n\<in>set p. validName n" "\<forall>n\<in>set p'. validName n"
    using reachable_valid [OF snap _ p] reachable_valid [OF snap _ p'(1)] by simp_all
  then have "p = p'"
    using fileUri_inj [OF _ _ p'(2)] by blast
  then show ?thesis
    using p'(3) by simp
qed


lemma discover_example:
  "map fst (files (ungrouped (discover ex_tree ''/base''))) =
     [''file:///base/loose.ftl'', ''file:///base/misc/en/a.ftl'', ''file:///base/en/top.ftl'']
   \<and> map collectionUris (collections (discover ex_tree ''/base'')) =
     [[''file:///base/strings/en/greet.ftl'', ''file:///base/strings/en/menu.FTL'',
       ''file:///base/strings/fr/greet.ftl'']]"
  by code_simp

text \<open>
  Claim C6.  For every snapshot of a file system, discovery from the base directory gives a
  result in which no URI has two places: the ungrouped group and the groups of the collections
  hold every key once, and no key is in two of them.  The claimed URIs are the placed ones, and
  every reachable resource file has a place.  Which files are ungrouped and which collections
  are found is fixed by the tree: the ungrouped files are the reachable files without a
  collection and the collections are those of the reachable files, whatever the order in which
  the walk comes to them.  An entry whose URI is claimed changes nothing, and discovery run
  again over the same tree from its own result gives that result.
\<close>

theorem discover_places_every_file_once:
  assumes "snapshot root"
  shows "distinct (placedUris (discover root basePath))
    \<and> set (uris (discover root basePath)) = set (placedUris (discover root basePath))
    \<and> fileUri basePath ` set (reachableFiles [] root) \<subseteq> set (placedUris (discover root basePath))
    \<and> set (map fst (files (ungrouped (discover root basePath)))) =
        {fileUri basePath p | p. p \<in> set (reachableFiles [] root)
                                \<and> collectionOf root basePath p = None}
    \<and> set (collections (discover root basePath)) =
        {c. \<exists>p\<in>set (reachableFiles [] root). collectionOf root basePath p = Some c}
    \<and> (\<forall>cur n ctx. fileUri basePath (cur @ [n]) \<in> set (uris ctx)
          \<longrightarrow> discoverFile root basePath cur (File n) ctx = ctx)
    \<and> discoverInternal root basePath [] root (discover root basePath) = discover root basePath"
proof -
  define r where "r = discover root basePath"
  have inv: "placement root basePath r"
    unfolding r_def by (rule placement_discover [OF assms])
  have cov: "fileUri basePath ` set (reachableFiles [] root) \<subseteq> set (uris r)"
    unfolding r_def by (rule covers_discover [OF assms])
  have 1: "distinct (placedUris r)" and 2: "set (uris r) = set (placedUris r)"
    using inv by (simp_all add: placement_def)
  have 3: "fileUri basePath ` set (reachableFiles [] root) \<subseteq> set (placedUris r)"
    using cov 2 by simp
  have where_placed: "fileUri basePath p \<in> set (map fst (files (ungrouped r)))
      \<or> (\<exists>c\<in>set (collections r). fileUri basePath p \<in> set (collectionUris c))"
    if "p \<in> set (reachableFiles [] root)" for p
    using 3 that by (auto simp: placedUris_def)
  have 4: "set (map fst (files (ungrouped r))) =
        {fileUri basePath p | p. p \<in> set (reachableFiles [] root)
                                \<and> collectionOf root basePath p = None}"
  proof (intro set_eqI iffI)
    fix x
    assume "x \<in> set (map fst (files (ungrouped r)))"
    then show "x \<in> {fileUri basePath p | p. p \<in> set (reachableFiles [] root)
                                \<and> collectionOf root basePath p = None}"
      using inv unfolding placement_def by blast
  next
    fix x
    assume "x \<in> {fileUri basePath p | p. p \<in> set (reachableFiles [] root)
                                \<and> collectionOf root basePath p = None}"
    then obtain p where p: "x = fileUri basePath p" "p \<in> set (reachableFiles [] root)"
      "collectionOf root basePath p = None"
      by blast
    show "x \<in> set (map fst (files (ungrouped r)))"
      using where_placed [OF p(2)] placed_collection [OF assms inv p(2)] p(1,3) by auto
  qed
  have 5: "set (collections r) =
        {c. \<exists>p\<in>set (reachableFiles [] root). collectionOf root basePath p = Some c}"
  proof (intro set_eqI iffI)
    fix c
    assume "c \<in> set (collections r)"
    then show "c \<in> {c. \<exists>p\<in>set (reachableFiles [] root). collectionOf root basePath p = Some c}"
      using inv unfolding placement_def by blast
  next
    fix c
    assume "c \<in> {c. \<exists>p\<in>set (reachableFiles [] root). collectionOf root basePath p = Some c}"
    then obtain p where p: "p \<in> set (reachableFiles [] root)" "collectionOf root basePath p = Some c"
      by blast
    show "c \<in> set (collections r)"
      using where_placed [OF p(1)] placed_collection [OF assms inv p(1)]
        placed_ungrouped [OF assms inv p(1)] p(2) by auto
  qed
  have 6: "\<forall>cur n ctx. fileUri basePath (cur @ [n]) \<in> set (uris ctx)
          \<longrightarrow> discoverFile root basePath cur (File n) ctx = ctx"
    by (simp add: discoverFile_collectionOf)
  have 7: "discoverInternal root basePath [] root r = r"
    by (rule fixed_walk(1) [OF cov])
  show ?thesis
    using 1 2 3 4 5 6 7 unfolding r_def by blast
qed

text \<open>
  The example tree is a snapshot, and its loose file, once claimed, changes nothing.
\<close>

theorem discover_places_every_file_once_witness:
  "snapshot ex_tree
   \<and> distinct (placedUris (discover ex_tree ''/base''))
   \<and> set (uris (discover ex_tree ''/base'')) = set (placedUris (discover ex_tree ''/base''))
   \<and> fileUri ''/base'' ` set (reachableFiles [] ex_tree)
        \<subseteq> set (placedUris (discover ex_tree ''/base''))
   \<and> fileUri ''/base'' ([] @ [''loose.ftl'']) \<in> set (uris (discover ex_tree ''/base''))
   \<and> discoverFile ex_tree ''/base'' [] (File ''loose.ftl'') (discover ex_tree ''/base'')
        = discover ex_tree ''/base''
   \<and> discoverInternal ex_tree ''/base'' [] ex_tree (discover ex_tree ''/base'')
        = discover ex_tree ''/base''"
proof -
  have s: "snapshot ex_tree"
    by code_simp
  have m: "fileUri ''/base'' ([] @ [''loose.ftl'']) \<in> set (uris (discover ex_tree ''/base''))"
    by code_simp
  show ?thesis
    using discover_places_every_file_once [OF s, of "''/base''"] s m by blast
qed

end
